theory Spec2Isabelle
  imports Main "HOL-Library.Sublist"
begin

section \<open>Strings\<close>

text \<open>
  A JavaScript string is a sequence of UTF-16 code units. A code unit is modelled as a
  natural number (below 65536 for every real string); \<open>js\<close> embeds an ASCII literal.
\<close>

type_synonym jsstring = "nat list"

definition js :: "string \<Rightarrow> jsstring" where
  "js s = map of_char s"

text \<open>\<^verbatim>\<open>s.split(c)\<close> for a one-character separator: never the empty array.\<close>

fun split_on :: "nat \<Rightarrow> jsstring \<Rightarrow> jsstring list" where
  "split_on c [] = [[]]"
| "split_on c (x # xs) =
     (if x = c then [] # split_on c xs
      else (case split_on c xs of [] \<Rightarrow> [[x]] | p # ps \<Rightarrow> (x # p) # ps))"

text \<open>\<^verbatim>\<open>parts.join(c)\<close> for a one-character separator.\<close>

fun join_with :: "nat \<Rightarrow> jsstring list \<Rightarrow> jsstring" where
  "join_with c [] = []"
| "join_with c [p] = p"
| "join_with c (p # q # ps) = p @ c # join_with c (q # ps)"

text \<open>The decimal rendering of a non-negative integer, as a template literal prints it.\<close>

fun digits :: "nat \<Rightarrow> jsstring" where
  "digits n = (if n < 10 then [48 + n] else digits (n div 10) @ [48 + n mod 10])"

declare digits.simps [simp del]

section \<open>Platform functions of the URI and URL standards\<close>

text \<open>
  \<^verbatim>\<open>encodeURIComponent\<close>, \<^verbatim>\<open>decodeURIComponent\<close> and the \<^verbatim>\<open>URL\<close> constructor belong to
  the JavaScript platform. The first two are modelled from ECMA-262 (the abstract
  operations Encode and Decode); \<open>None\<close> is a thrown \<^verbatim>\<open>URIError\<close>.
\<close>

definition ascii_alpha :: "nat \<Rightarrow> bool" where
  "ascii_alpha c \<longleftrightarrow> (65 \<le> c \<and> c \<le> 90) \<or> (97 \<le> c \<and> c \<le> 122)"

definition ascii_digit :: "nat \<Rightarrow> bool" where
  "ascii_digit c \<longleftrightarrow> 48 \<le> c \<and> c \<le> 57"

text \<open>The characters \<^verbatim>\<open>encodeURIComponent\<close> leaves alone: letters, digits and \<^verbatim>\<open>-_.!~*'()\<close>.\<close>

definition uri_unreserved :: "nat \<Rightarrow> bool" where
  "uri_unreserved c \<longleftrightarrow>
     ascii_alpha c \<or> ascii_digit c \<or> c \<in> {45, 95, 46, 33, 126, 42, 39, 40, 41}"

definition hex_digit :: "nat \<Rightarrow> nat" where
  "hex_digit n = (if n < 10 then 48 + n else 55 + n)"

definition percent_byte :: "nat \<Rightarrow> jsstring" where
  "percent_byte b = [37, hex_digit (b div 16), hex_digit (b mod 16)]"

definition utf8_encode :: "nat \<Rightarrow> nat list" where
  "utf8_encode cp =
     (if cp < 128 then [cp]
      else if cp < 2048 then [192 + cp div 64, 128 + cp mod 64]
      else if cp < 65536 then [224 + cp div 4096, 128 + (cp div 64) mod 64, 128 + cp mod 64]
      else [240 + cp div 262144, 128 + (cp div 4096) mod 64, 128 + (cp div 64) mod 64,
            128 + cp mod 64])"

definition high_surrogate :: "nat \<Rightarrow> bool" where
  "high_surrogate c \<longleftrightarrow> 55296 \<le> c \<and> c \<le> 56319"

definition low_surrogate :: "nat \<Rightarrow> bool" where
  "low_surrogate c \<longleftrightarrow> 56320 \<le> c \<and> c \<le> 57343"

definition surrogate_pair :: "nat \<Rightarrow> nat \<Rightarrow> nat" where
  "surrogate_pair hi lo = 65536 + (hi - 55296) * 1024 + (lo - 56320)"

definition percent_encode :: "nat \<Rightarrow> jsstring" where
  "percent_encode cp = concat (map percent_byte (utf8_encode cp))"

fun encodeURIComponent :: "jsstring \<Rightarrow> jsstring option" where
  "encodeURIComponent [] = Some []"
| "encodeURIComponent (c # cs) =
     (if uri_unreserved c then map_option (\<lambda>r. c # r) (encodeURIComponent cs)
      else if low_surrogate c then None
      else if high_surrogate c then
        (case cs of
           [] \<Rightarrow> None
         | d # ds \<Rightarrow>
             if low_surrogate d
             then map_option (\<lambda>r. percent_encode (surrogate_pair c d) @ r) (encodeURIComponent ds)
             else None)
      else map_option (\<lambda>r. percent_encode c @ r) (encodeURIComponent cs))"

definition hex_value :: "nat \<Rightarrow> nat option" where
  "hex_value c =
     (if ascii_digit c then Some (c - 48)
      else if 65 \<le> c \<and> c \<le> 70 then Some (c - 55)
      else if 97 \<le> c \<and> c \<le> 102 then Some (c - 87)
      else None)"

text \<open>One escape \<^verbatim>\<open>%XX\<close> at the head of the string: its byte and the rest.\<close>

fun read_escape :: "jsstring \<Rightarrow> (nat \<times> jsstring) option" where
  "read_escape (p # h # l # rest) =
     (if p = 37 then
        (case (hex_value h, hex_value l) of
           (Some a, Some b) \<Rightarrow> Some (16 * a + b, rest)
         | _ \<Rightarrow> None)
      else None)"
| "read_escape _ = None"

fun read_escapes :: "nat \<Rightarrow> jsstring \<Rightarrow> (nat list \<times> jsstring) option" where
  "read_escapes 0 s = Some ([], s)"
| "read_escapes (Suc n) s =
     (case read_escape s of
        None \<Rightarrow> None
      | Some (b, rest) \<Rightarrow>
          (case read_escapes n rest of
             None \<Rightarrow> None
           | Some (bs, rest') \<Rightarrow> Some (b # bs, rest')))"

text \<open>The number of bytes a UTF-8 sequence with this leading byte has (0: not a leading byte).\<close>

definition utf8_length :: "nat \<Rightarrow> nat" where
  "utf8_length b =
     (if 192 \<le> b \<and> b < 224 then 2
      else if 224 \<le> b \<and> b < 240 then 3
      else if 240 \<le> b \<and> b < 248 then 4
      else 0)"

definition continuation :: "nat \<Rightarrow> bool" where
  "continuation b \<longleftrightarrow> 128 \<le> b \<and> b < 192"

text \<open>
  The code point of a multi-byte UTF-8 sequence, when the sequence is valid: continuation
  bytes in range, shortest form, no surrogate, at most U+10FFFF.
\<close>

fun utf8_decode :: "nat list \<Rightarrow> nat option" where
  "utf8_decode [a, b] =
     (let cp = (a - 192) * 64 + (b - 128)
      in if continuation b \<and> 128 \<le> cp then Some cp else None)"
| "utf8_decode [a, b, c] =
     (let cp = (a - 224) * 4096 + (b - 128) * 64 + (c - 128)
      in if continuation b \<and> continuation c \<and> 2048 \<le> cp \<and> \<not> (55296 \<le> cp \<and> cp \<le> 57343)
         then Some cp else None)"
| "utf8_decode [a, b, c, d] =
     (let cp = (a - 240) * 262144 + (b - 128) * 4096 + (c - 128) * 64 + (d - 128)
      in if continuation b \<and> continuation c \<and> continuation d \<and> 65536 \<le> cp \<and> cp \<le> 1114111
         then Some cp else None)"
| "utf8_decode _ = None"

definition utf16_encode :: "nat \<Rightarrow> jsstring" where
  "utf16_encode cp =
     (if cp < 65536 then [cp]
      else [55296 + (cp - 65536) div 1024, 56320 + (cp - 65536) mod 1024])"

lemma read_escape_shorter: "read_escape s = Some (b, rest) \<Longrightarrow> length rest < length s"
  by (induction s rule: read_escape.induct) (auto split: if_splits option.splits)

lemma read_escapes_shorter: "read_escapes n s = Some (bs, rest) \<Longrightarrow> length rest \<le> length s"
proof (induction n arbitrary: s bs rest)
  case 0
  then show ?case by simp
next
  case (Suc n)
  then show ?case
    by (fastforce split: option.splits dest: read_escape_shorter)
qed

function decodeURIComponent :: "jsstring \<Rightarrow> jsstring option" where
  "decodeURIComponent [] = Some []"
| "decodeURIComponent (c # cs) =
     (if c \<noteq> 37 then map_option (\<lambda>r. c # r) (decodeURIComponent cs)
      else
        (case read_escape (c # cs) of
           None \<Rightarrow> None
         | Some (b, rest) \<Rightarrow>
             if b < 128 then map_option (\<lambda>r. b # r) (decodeURIComponent rest)
             else if utf8_length b = 0 then None
             else
               (case read_escapes (utf8_length b - 1) rest of
                  None \<Rightarrow> None
                | Some (bs, rest') \<Rightarrow>
                    (case utf8_decode (b # bs) of
                       None \<Rightarrow> None
                     | Some cp \<Rightarrow>
                         map_option (\<lambda>r. utf16_encode cp @ r) (decodeURIComponent rest')))))"
  by pat_completeness auto
termination
proof (relation "measure length")
  show "wf (measure length)" by simp
next
  fix c :: nat and cs :: jsstring
  show "(cs, c # cs) \<in> measure length" by simp
next
  fix c :: nat and cs :: jsstring and x2 :: "nat \<times> jsstring" and b :: nat and rest :: jsstring
  assume "read_escape (c # cs) = Some x2" "(b, rest) = x2"
  then show "(rest, c # cs) \<in> measure length"
    using read_escape_shorter [of "c # cs" b rest] by simp
next
  fix c :: nat and cs :: jsstring and x2 :: "nat \<times> jsstring" and b :: nat and rest :: jsstring
    and x2a :: "nat list \<times> jsstring" and bs :: "nat list" and rest' :: jsstring
  assume "read_escape (c # cs) = Some x2" "(b, rest) = x2"
    "read_escapes (utf8_length b - 1) rest = Some x2a" "(bs, rest') = x2a"
  then show "(rest', c # cs) \<in> measure length"
    using read_escape_shorter [of "c # cs" b rest]
      read_escapes_shorter [of "utf8_length b - 1" rest bs rest'] by simp
qed

text \<open>
  Modelled from the URL Standard (the platform's \<^verbatim>\<open>URL\<close> parser is not part of the
  repository). The result of \<^verbatim>\<open>new URL(url)\<close> is reduced to its \<^verbatim>\<open>pathname\<close>, or to the
  \<^verbatim>\<open>TypeError\<close> it throws. The model \<open>URL_standard\<close> covers two shapes of input and says
  nothing (\<open>None\<close>) about any other:
  \<^item> a string with no scheme (it does not start with a letter followed by letters,
    digits, \<^verbatim>\<open>+\<close>, \<^verbatim>\<open>-\<close>, \<^verbatim>\<open>.\<close> up to a colon): with no base URL the parser fails;
  \<^item> \<^verbatim>\<open>https://host/path\<close> where the host is an ASCII domain name of letters, digits,
    hyphens, underscores and dots whose last label is not a number and none of whose
    labels begins with \<^verbatim>\<open>xn--\<close>, and where the path holds only unreserved characters,
    \<^verbatim>\<open>%\<close> and \<^verbatim>\<open>/\<close>: the parser keeps every path character as it is and resolves dot
    segments (\<^verbatim>\<open>.\<close>, \<^verbatim>\<open>..\<close> and their \<^verbatim>\<open>%2e\<close> spellings).
  Before anything else the parser strips control characters and spaces from both ends
  and removes every tab and newline.
\<close>

datatype URL_result = Pathname jsstring | TypeError

definition url_trim :: "jsstring \<Rightarrow> jsstring" where
  "url_trim s =
     filter (\<lambda>c. c \<noteq> 9 \<and> c \<noteq> 10 \<and> c \<noteq> 13)
       (rev (dropWhile (\<lambda>c. c \<le> 32) (rev (dropWhile (\<lambda>c. c \<le> 32) s))))"

definition scheme_char :: "nat \<Rightarrow> bool" where
  "scheme_char c \<longleftrightarrow> ascii_alpha c \<or> ascii_digit c \<or> c = 43 \<or> c = 45 \<or> c = 46"

definition has_scheme :: "jsstring \<Rightarrow> bool" where
  "has_scheme s =
     (case s of
        [] \<Rightarrow> False
      | c # cs \<Rightarrow>
          ascii_alpha c \<and> (case dropWhile scheme_char cs of [] \<Rightarrow> False | d # _ \<Rightarrow> d = 58))"

definition host_char :: "nat \<Rightarrow> bool" where
  "host_char c \<longleftrightarrow> ascii_alpha c \<or> ascii_digit c \<or> c = 45 \<or> c = 95 \<or> c = 46"

definition path_char :: "nat \<Rightarrow> bool" where
  "path_char c \<longleftrightarrow> uri_unreserved c \<or> c = 37 \<or> c = 47"

definition ascii_lower :: "nat \<Rightarrow> nat" where
  "ascii_lower c = (if 65 \<le> c \<and> c \<le> 90 then c + 32 else c)"

definition punycode_label :: "jsstring \<Rightarrow> bool" where
  "punycode_label l \<longleftrightarrow> map ascii_lower (take 4 l) = js ''xn--''"

text \<open>
  A last label that is a number (decimal digits, or \<^verbatim>\<open>0x\<close> and hexadecimal digits) sends
  the host to the IPv4 parser.
\<close>

definition numeric_label :: "jsstring \<Rightarrow> bool" where
  "numeric_label l \<longleftrightarrow>
     l \<noteq> [] \<and>
     (list_all ascii_digit l
      \<or> (map ascii_lower (take 2 l) = js ''0x'' \<and> list_all (\<lambda>c. hex_value c \<noteq> None) (drop 2 l)))"

definition plain_domain :: "jsstring \<Rightarrow> bool" where
  "plain_domain h \<longleftrightarrow>
     h \<noteq> [] \<and> list_all host_char h \<and>
     (let labels = split_on 46 h;
          named = (if last labels = [] then butlast labels else labels)
      in named \<noteq> [] \<and> last named \<noteq> [] \<and> \<not> numeric_label (last named)
         \<and> \<not> list_ex punycode_label labels)"

definition single_dot :: "jsstring \<Rightarrow> bool" where
  "single_dot seg \<longleftrightarrow> map ascii_lower seg = js ''.'' \<or> map ascii_lower seg = js ''%2e''"

definition double_dot :: "jsstring \<Rightarrow> bool" where
  "double_dot seg \<longleftrightarrow>
     map ascii_lower seg = js ''..'' \<or> map ascii_lower seg = js ''.%2e'' \<or>
     map ascii_lower seg = js ''%2e.'' \<or> map ascii_lower seg = js ''%2e%2e''"

text \<open>
  The path state of the parser: \<open>done\<close> is the path built so far, the second argument the
  segments still to read. A double-dot segment removes the last segment built, a
  single-dot segment adds nothing; either one, as the last segment, leaves an empty
  segment behind.
\<close>

fun path_segments :: "jsstring list \<Rightarrow> jsstring list \<Rightarrow> jsstring list" where
  "path_segments done [] = done"
| "path_segments done (seg # more) =
     (if double_dot seg then
        (if more = [] then butlast done @ [[]] else path_segments (butlast done) more)
      else if single_dot seg then
        (if more = [] then done @ [[]] else path_segments done more)
      else path_segments (done @ [seg]) more)"

definition URL_standard :: "jsstring \<Rightarrow> URL_result option" where
  "URL_standard url =
     (let input = url_trim url in
      if \<not> has_scheme input then Some TypeError
      else if take 8 input = js ''https://'' then
        (let rest = drop 8 input;
             host = takeWhile host_char rest;
             after = dropWhile host_char rest
         in if plain_domain host \<and> (after = [] \<or> hd after = 47) \<and> list_all path_char after
            then Some (Pathname
                   (concat (map (\<lambda>seg. 47 # seg) (path_segments [] (split_on 47 (tl after))))))
            else None)
      else None)"

text \<open>
  A parser \<open>URL\<close> (the pathname it yields, \<open>None\<close> when it throws) follows the standard
  when it agrees with the model wherever the model speaks.
\<close>

definition follows_standard :: "(jsstring \<Rightarrow> jsstring option) \<Rightarrow> bool" where
  "follows_standard URL \<longleftrightarrow>
     (\<forall>url. case URL_standard url of
              None \<Rightarrow> True
            | Some (Pathname p) \<Rightarrow> URL url = Some p
            | Some TypeError \<Rightarrow> URL url = None)"

text \<open>
  One parser that follows the standard, for the examples: outside the two shapes it
  throws, which the platform's parser need not do; the examples apply it to strings of
  the two shapes only.
\<close>

definition URL_pathname :: "jsstring \<Rightarrow> jsstring option" where
  "URL_pathname url =
     (case URL_standard url of
        Some (Pathname p) \<Rightarrow> Some p
      | _ \<Rightarrow> None)"

lemmas eval_url =
  URL_pathname_def URL_standard_def url_trim_def has_scheme_def scheme_char_def host_char_def
  ascii_alpha_def ascii_digit_def plain_domain_def numeric_label_def punycode_label_def
  ascii_lower_def path_char_def uri_unreserved_def single_dot_def double_dot_def hex_value_def

lemma URL_pathname_follows: "follows_standard URL_pathname"
  by (auto simp: follows_standard_def URL_pathname_def split: option.splits URL_result.splits)

lemma URL_pathname_no_scheme: "\<not> has_scheme (url_trim url) \<Longrightarrow> URL_pathname url = None"
  by (simp add: URL_pathname_def URL_standard_def)

section \<open>Settings and the uploader\<close>

record OssPicbedSettings =
  accessKeyId :: jsstring
  accessKeySecret :: jsstring
  bucket :: jsstring
  region :: jsstring
  prefix :: jsstring
  usePublicUrl :: bool

definition DEFAULT_SETTINGS :: OssPicbedSettings where
  "DEFAULT_SETTINGS =
     \<lparr>accessKeyId = [], accessKeySecret = [], bucket = [], region = [], prefix = [],
      usePublicUrl = True\<rparr>"

text \<open>A thrown \<^verbatim>\<open>Error\<close> with its message.\<close>

datatype Error = Error jsstring

text \<open>
  The options object handed to the storage library's client constructor, and the client
  it returns. The library is not part of the repository: its constructor is a parameter
  \<open>newOSS\<close> of the model, which either throws or returns a client.
\<close>

record OSSOptions =
  opt_accessKeyId :: jsstring
  opt_accessKeySecret :: jsstring
  opt_bucket :: jsstring
  opt_region :: jsstring
  opt_secure :: bool

datatype OSS = OSS OSSOptions

record OssUploader =
  settings :: OssPicbedSettings
  client :: OSS

definition validateSettings :: "OssPicbedSettings \<Rightarrow> Error + unit" where
  "validateSettings s =
     (if accessKeyId s = [] \<or> accessKeySecret s = []
      then Inl (Error (js ''Access Key ID or Access Key Secret is empty''))
      else if bucket s = [] \<or> region s = []
      then Inl (Error (js ''Bucket or Region is empty''))
      else Inr ())"

definition client_options :: "OssPicbedSettings \<Rightarrow> OSSOptions" where
  "client_options s =
     \<lparr>opt_accessKeyId = accessKeyId s, opt_accessKeySecret = accessKeySecret s,
      opt_bucket = bucket s, opt_region = region s, opt_secure = True\<rparr>"

text \<open>
  The constructor of \<^verbatim>\<open>OssUploader\<close>. The first component of the result lists the
  calls made to the library's client constructor, in order; the second is the thrown
  error or the constructed uploader.
\<close>

definition new_OssUploader ::
  "(OSSOptions \<Rightarrow> Error + OSS) \<Rightarrow> OssPicbedSettings \<Rightarrow> OSSOptions list \<times> (Error + OssUploader)"
where
  "new_OssUploader newOSS s =
     (case validateSettings s of
        Inl e \<Rightarrow> ([], Inl e)
      | Inr _ \<Rightarrow>
          (case newOSS (client_options s) of
             Inl e \<Rightarrow> ([client_options s], Inl e)
           | Inr c \<Rightarrow> ([client_options s], Inr \<lparr>settings = s, client = c\<rparr>)))"

definition getPrefix :: "OssPicbedSettings \<Rightarrow> jsstring" where
  "getPrefix s =
     (let p = rev (dropWhile (\<lambda>c. c = 47) (rev (dropWhile (\<lambda>c. c = 47) (prefix s))))
      in if p \<noteq> [] then p @ js ''/'' else [])"

record File =
  name :: jsstring
  mime :: jsstring

text \<open>\<open>now\<close> is the value of \<^verbatim>\<open>Date.now()\<close> at the call.\<close>

definition generateFileName :: "nat \<Rightarrow> File \<Rightarrow> jsstring" where
  "generateFileName now file =
     (let extension = last (split_on 46 (name file))
      in if extension \<noteq> [] then digits now @ js ''.'' @ extension else digits now)"

text \<open>
  The storage service as the uploader sees it. The outcome of a request is \<open>None\<close> when
  it succeeds and the thrown error when it fails; a delete request is identified by its
  position among the delete requests of the running operation as well as by its key, so
  that two requests for one key may end differently.
\<close>

record Remote =
  put_outcome :: "OSS \<Rightarrow> jsstring \<Rightarrow> File \<Rightarrow> jsstring \<Rightarrow> Error option"
  delete_outcome :: "OSS \<Rightarrow> nat \<Rightarrow> jsstring \<Rightarrow> Error option"
  signatureUrl :: "OSS \<Rightarrow> jsstring \<Rightarrow> nat \<Rightarrow> Error + jsstring"

definition URIError :: Error where
  "URIError = Error (js ''URI malformed'')"

definition getUrl :: "Remote \<Rightarrow> OssUploader \<Rightarrow> jsstring \<Rightarrow> Error + jsstring" where
  "getUrl r u key =
     (if usePublicUrl (settings u) then
        (case those (map encodeURIComponent (split_on 47 key)) of
           None \<Rightarrow> Inl URIError
         | Some parts \<Rightarrow>
             Inr (js ''https://'' @ bucket (settings u) @ js ''.'' @ region (settings u)
                  @ js ''.aliyuncs.com/'' @ join_with 47 parts))
      else signatureUrl r (client u) key 3600)"

text \<open>
  \<open>URL\<close> is the platform's parser: the pathname of the parsed URL, \<open>None\<close> when the
  constructor throws.
\<close>

definition parseKeyFromUrl :: "(jsstring \<Rightarrow> jsstring option) \<Rightarrow> jsstring \<Rightarrow> jsstring" where
  "parseKeyFromUrl URL url =
     (if url = [] then []
      else
        (case URL url of
           None \<Rightarrow> dropWhile (\<lambda>c. c = 47) url
         | Some pathname \<Rightarrow>
             (case decodeURIComponent (dropWhile (\<lambda>c. c = 47) pathname) of
                None \<Rightarrow> dropWhile (\<lambda>c. c = 47) url
              | Some key \<Rightarrow> key)))"

definition upload :: "Remote \<Rightarrow> OssUploader \<Rightarrow> nat \<Rightarrow> File \<Rightarrow> Error + (jsstring \<times> jsstring)" where
  "upload r u now file =
     (let key = getPrefix (settings u) @ generateFileName now file
      in case put_outcome r (client u) key file
                (if mime file \<noteq> [] then mime file else js ''application/octet-stream'') of
           Some e \<Rightarrow> Inl e
         | None \<Rightarrow>
             (case getUrl r u key of
                Inl e \<Rightarrow> Inl e
              | Inr url \<Rightarrow> Inr (url, key)))"

text \<open>
  \<^verbatim>\<open>OssUploader.delete\<close>, as request number \<open>i\<close>: the keys sent to the service and the
  outcome.
\<close>

definition delete :: "Remote \<Rightarrow> OssUploader \<Rightarrow> nat \<Rightarrow> jsstring \<Rightarrow> jsstring list \<times> Error option" where
  "delete r u i key =
     (if key = [] then ([], None) else ([key], delete_outcome r (client u) i key))"

section \<open>The editor surface\<close>

text \<open>
  The host's editor, reduced to what the plugin uses: the text of the document and the
  cursor, kept as a character offset. Lines are separated by the line feed (code 10); a
  position is a line number and a column. Offsets and positions past the end are
  clipped to the end of the text or line.
\<close>

record EditorPosition =
  line :: nat
  ch :: nat

record Editor =
  content :: jsstring
  cursor :: nat

definition getValue :: "Editor \<Rightarrow> jsstring" where
  "getValue ed = content ed"

definition text_offsetToPos :: "jsstring \<Rightarrow> nat \<Rightarrow> EditorPosition" where
  "text_offsetToPos s offset =
     (let front = take offset s
      in \<lparr>line = length (filter (\<lambda>c. c = 10) front),
          ch = length (takeWhile (\<lambda>c. c \<noteq> 10) (rev front))\<rparr>)"

fun text_posToOffset :: "jsstring \<Rightarrow> nat \<Rightarrow> nat \<Rightarrow> nat" where
  "text_posToOffset s 0 c = min c (length (takeWhile (\<lambda>x. x \<noteq> 10) s))"
| "text_posToOffset s (Suc l) c =
     (case dropWhile (\<lambda>x. x \<noteq> 10) s of
        [] \<Rightarrow> length s
      | _ # rest \<Rightarrow> length (takeWhile (\<lambda>x. x \<noteq> 10) s) + 1 + text_posToOffset rest l c)"

definition offsetToPos :: "Editor \<Rightarrow> nat \<Rightarrow> EditorPosition" where
  "offsetToPos ed offset = text_offsetToPos (content ed) offset"

definition posToOffset :: "Editor \<Rightarrow> EditorPosition \<Rightarrow> nat" where
  "posToOffset ed p = text_posToOffset (content ed) (line p) (ch p)"

definition getCursor :: "Editor \<Rightarrow> EditorPosition" where
  "getCursor ed = offsetToPos ed (cursor ed)"

definition setCursor :: "Editor \<Rightarrow> EditorPosition \<Rightarrow> Editor" where
  "setCursor ed p = ed\<lparr>cursor := posToOffset ed p\<rparr>"

definition setValue :: "Editor \<Rightarrow> jsstring \<Rightarrow> Editor" where
  "setValue ed v = \<lparr>content = v, cursor = min (cursor ed) (length v)\<rparr>"

text \<open>
  \<^verbatim>\<open>replaceRange(text, from, to)\<close>: the text between the two positions is replaced. A
  cursor at or before the start stays, a cursor inside the replaced text moves to its
  start, a cursor at or after its end moves with the text that follows.
\<close>

definition replaceRange :: "jsstring \<Rightarrow> EditorPosition \<Rightarrow> EditorPosition \<Rightarrow> Editor \<Rightarrow> Editor" where
  "replaceRange text from to ed =
     (let a = posToOffset ed from; b = posToOffset ed to; c = cursor ed
      in \<lparr>content = take a (content ed) @ text @ drop b (content ed),
          cursor = (if c \<le> a then c else if c < b then a else c - (b - a) + length text)\<rparr>)"

text \<open>\<^verbatim>\<open>replaceRange(text, pos)\<close>: an insertion at one position.\<close>

definition insertAt :: "jsstring \<Rightarrow> EditorPosition \<Rightarrow> Editor \<Rightarrow> Editor" where
  "insertAt text pos ed = replaceRange text pos pos ed"

text \<open>\<^verbatim>\<open>getLine(n)\<close>; the host throws when the document has no line \<open>n\<close>.\<close>

definition RangeError :: Error where
  "RangeError = Error (js ''Invalid line number'')"

definition getLine :: "Editor \<Rightarrow> nat \<Rightarrow> Error + jsstring" where
  "getLine ed n =
     (if n < length (split_on 10 (content ed)) then Inr (split_on 10 (content ed) ! n)
      else Inl RangeError)"

definition setLine :: "Editor \<Rightarrow> nat \<Rightarrow> jsstring \<Rightarrow> Editor" where
  "setLine ed n text =
     (let v = join_with 10 ((split_on 10 (content ed))[n := text])
      in \<lparr>content = v, cursor = min (cursor ed) (length v)\<rparr>)"

section \<open>String search and the regular expressions\<close>

text \<open>
  \<^verbatim>\<open>s.indexOf(t)\<close>, with \<open>None\<close> for \<^verbatim>\<open>-1\<close>, and \<^verbatim>\<open>s.includes(t)\<close>.
\<close>

fun indexOf :: "jsstring \<Rightarrow> jsstring \<Rightarrow> nat option" where
  "indexOf [] t = (if t = [] then Some 0 else None)"
| "indexOf (c # cs) t =
     (if Sublist.prefix t (c # cs) then Some 0 else map_option Suc (indexOf cs t))"

definition includes_str :: "jsstring \<Rightarrow> jsstring \<Rightarrow> bool" where
  "includes_str s t \<longleftrightarrow> indexOf s t \<noteq> None"

text \<open>
  \<^verbatim>\<open>s.replace(t, "")\<close> for a string pattern \<open>t\<close>: the first occurrence of \<open>t\<close> is cut
  out.
\<close>

definition remove_first :: "jsstring \<Rightarrow> jsstring \<Rightarrow> jsstring" where
  "remove_first s t =
     (case indexOf s t of
        None \<Rightarrow> s
      | Some i \<Rightarrow> take i s @ drop (i + length t) s)"

text \<open>
  The regular expressions are matched as the backtracking matcher of ECMA-262 does. A
  matcher applied to the text at a position returns what follows the match there, or
  \<open>None\<close>. The dot matches every code unit but the four line terminators.
\<close>

definition line_terminator :: "nat \<Rightarrow> bool" where
  "line_terminator c \<longleftrightarrow> c = 10 \<or> c = 13 \<or> c = 8232 \<or> c = 8233"

definition lit :: "jsstring \<Rightarrow> jsstring \<Rightarrow> jsstring option" where
  "lit p s = (if Sublist.prefix p s then Some (drop (length p) s) else None)"

text \<open>
  With the flag \<^verbatim>\<open>i\<close> two code units match when their canonical forms agree; against
  the ASCII letters of the patterns here that is equality up to ASCII case.
\<close>

definition canonical :: "nat \<Rightarrow> nat" where
  "canonical c = (if 97 \<le> c \<and> c \<le> 122 then c - 32 else c)"

definition lit_ci :: "jsstring \<Rightarrow> jsstring \<Rightarrow> jsstring option" where
  "lit_ci p s =
     (if Sublist.prefix (map canonical p) (map canonical s) then Some (drop (length p) s) else None)"

text \<open>
  The lazy \<^verbatim>\<open>.*?\<close> followed by the rest \<open>k\<close> of the pattern: the shortest run of dots
  after which \<open>k\<close> matches. The result is the run and the result of \<open>k\<close>.
\<close>

fun lazy_dots :: "(jsstring \<Rightarrow> 'a option) \<Rightarrow> jsstring \<Rightarrow> (jsstring \<times> 'a) option" where
  "lazy_dots k [] = map_option (Pair []) (k [])"
| "lazy_dots k (c # cs) =
     (case k (c # cs) of
        Some r \<Rightarrow> Some ([], r)
      | None \<Rightarrow>
          if line_terminator c then None
          else map_option (\<lambda>(m, r). (c # m, r)) (lazy_dots k cs))"

text \<open>Alternatives, tried in order.\<close>

fun alternatives :: "(jsstring \<Rightarrow> 'a option) list \<Rightarrow> jsstring \<Rightarrow> 'a option" where
  "alternatives [] s = None"
| "alternatives (m # ms) s = (case m s of Some r \<Rightarrow> Some r | None \<Rightarrow> alternatives ms s)"

text \<open>
  The search for the leftmost match from the start of \<open>s\<close>: the text before the match
  and the matcher's result.
\<close>

fun regex_search :: "(jsstring \<Rightarrow> 'a option) \<Rightarrow> jsstring \<Rightarrow> (jsstring \<times> 'a) option" where
  "regex_search m [] = map_option (Pair []) (m [])"
| "regex_search m (c # cs) =
     (case m (c # cs) of
        Some r \<Rightarrow> Some ([], r)
      | None \<Rightarrow> map_option (\<lambda>(front, r). (c # front, r)) (regex_search m cs))"

text \<open>
  \<^verbatim>\<open>/!\[.*?\]\((.*?)\)/\<close> at a position: the text between the brackets, the captured
  URL and what follows the match.
\<close>

definition image_match :: "jsstring \<Rightarrow> (jsstring \<times> jsstring \<times> jsstring) option" where
  "image_match s =
     (case lit (js ''!['') s of
        None \<Rightarrow> None
      | Some s1 \<Rightarrow>
          lazy_dots (\<lambda>s2. case lit (js '']('') s2 of
                             None \<Rightarrow> None
                           | Some s3 \<Rightarrow> lazy_dots (lit (js '')'')) s3) s1)"

text \<open>
  \<^verbatim>\<open>/!\[\[Pasted image.*?\.(?:png|jpe?g|gif|webp|svg)\]\]/i\<close> at a position: what follows
  the match.
\<close>

definition pasted_tail :: "jsstring \<Rightarrow> jsstring option" where
  "pasted_tail s2 =
     (case lit (js ''.'') s2 of
        None \<Rightarrow> None
      | Some s3 \<Rightarrow>
          alternatives
            (map (\<lambda>e. lit_ci (js e @ js '']]''))
               [''png'', ''jpeg'', ''jpg'', ''gif'', ''webp'', ''svg''])
            s3)"

definition pasted_match :: "jsstring \<Rightarrow> jsstring option" where
  "pasted_match s =
     (case lit_ci (js ''![[Pasted image'') s of
        None \<Rightarrow> None
      | Some s1 \<Rightarrow> map_option snd (lazy_dots pasted_tail s1))"

text \<open>What a successful match says about the text: the match is a piece of it.\<close>

lemma lit_Some: "lit p s = Some r \<Longrightarrow> s = p @ r"
  by (auto simp: lit_def Sublist.prefix_def split: if_splits)

lemma lit_ci_Some: "lit_ci p s = Some r \<Longrightarrow> s = take (length p) s @ r \<and> length p \<le> length s"
  by (auto simp: lit_ci_def split: if_splits dest!: prefix_length_le)

lemma lazy_dots_Some:
  "lazy_dots k s = Some (m, r) \<Longrightarrow> \<exists>s'. s = m @ s' \<and> k s' = Some r \<and> \<not> list_ex line_terminator m"
proof (induction s arbitrary: m)
  case Nil
  then show ?case by auto
next
  case (Cons c cs)
  show ?case
  proof (cases "k (c # cs)")
    case (Some a)
    with Cons.prems show ?thesis by auto
  next
    case None
    with Cons.prems obtain m' where m': "\<not> line_terminator c" "lazy_dots k cs = Some (m', r)" "m = c # m'"
      by (auto split: if_splits)
    from Cons.IH [OF m'(2)] m'(1,3) show ?thesis by auto
  qed
qed

lemma regex_search_Some:
  "regex_search m s = Some (front, r) \<Longrightarrow> \<exists>s'. s = front @ s' \<and> m s' = Some r"
proof (induction s arbitrary: front)
  case Nil
  then show ?case by auto
next
  case (Cons c cs)
  show ?case
  proof (cases "m (c # cs)")
    case (Some a)
    with Cons.prems show ?thesis by auto
  next
    case None
    with Cons.prems obtain b' where b': "regex_search m cs = Some (b', r)" "front = c # b'"
      by auto
    from Cons.IH [OF b'(1)] b'(2) show ?thesis by auto
  qed
qed

lemma image_match_Some:
  "image_match s = Some (alt, url, rest) \<Longrightarrow>
   s = js ''!['' @ alt @ js '']('' @ url @ js '')'' @ rest"
  by (auto simp: image_match_def split: option.splits dest!: lit_Some lazy_dots_Some)

lemma alternatives_Some: "alternatives ms s = Some r \<Longrightarrow> \<exists>m \<in> set ms. m s = Some r"
  by (induction ms) (auto split: option.splits)

lemma pasted_tail_Some: "pasted_tail s = Some rest \<Longrightarrow> \<exists>x. s = x @ rest \<and> x \<noteq> []"
proof -
  assume "pasted_tail s = Some rest"
  then obtain s3 where s3: "lit (js ''.'') s = Some s3" and
    alt: "alternatives (map (\<lambda>e. lit_ci (js e @ js '']]''))
            [''png'', ''jpeg'', ''jpg'', ''gif'', ''webp'', ''svg'']) s3 = Some rest"
    unfolding pasted_tail_def by (auto split: option.splits)
  from alternatives_Some [OF alt] obtain e where "lit_ci (js e @ js '']]'') s3 = Some rest"
    by auto
  from lit_ci_Some [OF this] obtain x where "s3 = x @ rest" by blast
  with lit_Some [OF s3] have "s = (js ''.'' @ x) @ rest \<and> js ''.'' @ x \<noteq> []"
    by (simp add: js_def)
  then show ?thesis by blast
qed

lemma pasted_match_Some:
  assumes "pasted_match s = Some rest"
  shows "\<exists>mt. s = mt @ rest \<and> mt \<noteq> []"
proof -
  from assms obtain s1 m where
    s1: "lit_ci (js ''![[Pasted image'') s = Some s1" and
    lz: "lazy_dots pasted_tail s1 = Some (m, rest)"
    by (auto simp: pasted_match_def split: option.splits)
  from lazy_dots_Some [OF lz] obtain s2 where s2: "s1 = m @ s2" "pasted_tail s2 = Some rest"
    by auto
  from pasted_tail_Some [OF s2(2)] obtain x where x: "s2 = x @ rest" "x \<noteq> []" by blast
  from lit_ci_Some [OF s1] have "s = take (length (js ''![[Pasted image'')) s @ s1" by simp
  with s2 x have "s = (take (length (js ''![[Pasted image'')) s @ m @ x) @ rest"
    by simp
  moreover have "take (length (js ''![[Pasted image'')) s @ m @ x \<noteq> []"
    using x by simp
  ultimately show ?thesis by blast
qed

lemma takeWhile_stop: "\<not> P x \<Longrightarrow> takeWhile P (xs @ x # ys) = takeWhile P xs"
  by (induction xs) auto

lemma text_offsetToPos_no_newline:
  assumes a: "10 \<notin> set (take i s)" and i: "i \<le> length s"
  shows "text_offsetToPos s i = \<lparr>line = 0, ch = i\<rparr>"
proof -
  from a have f: "filter (\<lambda>c. c = 10) (take i s) = []"
    by (auto simp: filter_empty_conv)
  have tw: "takeWhile (\<lambda>c. c \<noteq> 10) (rev (take i s)) = rev (take i s)"
    by (rule takeWhile_eq_all_conv [THEN iffD2]) (use a in auto)
  have "length (rev (take i s)) = i"
    using i by simp
  then have "length (takeWhile (\<lambda>c. c \<noteq> 10) (rev (take i s))) = i"
    by (simp only: tw)
  with f show ?thesis by (simp add: text_offsetToPos_def Let_def)
qed

lemma offset_roundtrip:
  "i \<le> length s \<Longrightarrow>
   text_posToOffset s (line (text_offsetToPos s i)) (ch (text_offsetToPos s i)) = i"
proof (induction s arbitrary: i rule: length_induct)
  case (1 s)
  show ?case
  proof (cases "10 \<in> set (take i s)")
    case False
    then have "takeWhile (\<lambda>x. x \<noteq> 10) (take i s @ drop i s)
        = take i s @ takeWhile (\<lambda>x. x \<noteq> 10) (drop i s)"
      by (intro takeWhile_append2) auto
    then have "length (take i s) \<le> length (takeWhile (\<lambda>x. x \<noteq> 10) s)"
      by simp
    then have "i \<le> length (takeWhile (\<lambda>x. x \<noteq> 10) s)" using "1.prems" by simp
    with False "1.prems" show ?thesis
      by (simp add: text_offsetToPos_no_newline)
  next
    case True
    define l1 where "l1 = takeWhile (\<lambda>x. x \<noteq> 10) s"
    from True have "10 \<in> set s" by (meson in_set_takeD)
    then obtain rest where s: "s = l1 @ 10 # rest"
      unfolding l1_def
      by (metis (mono_tags, lifting) takeWhile_dropWhile_id dropWhile_eq_Nil_conv hd_dropWhile list.collapse)
    have l1: "10 \<notin> set l1" unfolding l1_def by (auto dest: set_takeWhileD)
    have lt: "length l1 < i"
    proof (rule ccontr)
      assume "\<not> length l1 < i"
      then have "take i s = take i l1" using s by simp
      with True l1 show False by (auto dest: in_set_takeD)
    qed
    define j where "j = i - length l1 - 1"
    have i: "i = length l1 + 1 + j" using lt j_def by simp
    have j: "j \<le> length rest" using "1.prems" s i by simp
    have tk: "take i s = l1 @ 10 # take j rest" using s i by simp
    have all: "\<forall>x\<in>set l1. x \<noteq> 10" using l1 by auto
    have dw: "dropWhile (\<lambda>x. x \<noteq> 10) s = 10 # rest"
      using all by (subst s) (simp add: dropWhile_append2)
    have tw: "takeWhile (\<lambda>x. x \<noteq> 10) s = l1" by (simp add: l1_def)
    have line: "line (text_offsetToPos s i) = Suc (line (text_offsetToPos rest j))"
    proof -
      have "filter (\<lambda>c. c = 10) l1 = []" using all by (simp add: filter_empty_conv)
      then show ?thesis by (simp add: text_offsetToPos_def tk Let_def)
    qed
    have chh: "ch (text_offsetToPos s i) = ch (text_offsetToPos rest j)"
      by (simp add: text_offsetToPos_def tk Let_def takeWhile_stop)
    have "length rest < length s" using s by simp
    with "1.IH" j have
      "text_posToOffset rest (line (text_offsetToPos rest j)) (ch (text_offsetToPos rest j)) = j"
      by blast
    moreover have "text_posToOffset s (Suc L) C = length l1 + 1 + text_posToOffset rest L C" for L C
      by (simp add: dw tw)
    ultimately have
      "text_posToOffset s (line (text_offsetToPos s i)) (ch (text_offsetToPos s i)) = length l1 + 1 + j"
      by (simp only: line chh)
    then show ?thesis by (simp only: i)
  qed
qed

lemma image_search_shorter:
  "regex_search image_match s = Some (front, alt, url, rest) \<Longrightarrow> length rest < length s"
  by (auto dest!: regex_search_Some image_match_Some simp: js_def)

lemma pasted_search_Some:
  "regex_search pasted_match s = Some (front, rest) \<Longrightarrow>
   \<exists>mt. s = front @ mt @ rest \<and> mt \<noteq> []"
  by (auto dest!: regex_search_Some pasted_match_Some)

text \<open>
  \<^verbatim>\<open>[...s.matchAll(IMAGE_MARKDOWN_REGEX)]\<close>: every match, left to right, each search
  starting where the last match ended; of a match, its text and its captured URL.
\<close>

function image_matchAll :: "jsstring \<Rightarrow> (jsstring \<times> jsstring) list" where
  "image_matchAll s =
     (case regex_search image_match s of
        None \<Rightarrow> []
      | Some (front, alt, url, rest) \<Rightarrow>
          (js ''!['' @ alt @ js '']('' @ url @ js '')'', url) # image_matchAll rest)"
  by pat_completeness auto
termination
  by (relation "measure length") (auto dest: image_search_shorter)

text \<open>\<^verbatim>\<open>s.replace(IMAGE_MARKDOWN_REGEX, "")\<close>: every match is cut out.\<close>

function image_replaceAll :: "jsstring \<Rightarrow> jsstring" where
  "image_replaceAll s =
     (case regex_search image_match s of
        None \<Rightarrow> s
      | Some (front, alt, url, rest) \<Rightarrow> front @ image_replaceAll rest)"
  by pat_completeness auto
termination
  by (relation "measure length") (auto dest: image_search_shorter)

declare image_matchAll.simps [simp del] image_replaceAll.simps [simp del]

text \<open>\<^verbatim>\<open>line.replace(/!\[.*?\]\(.*?\)/, "")\<close>: the first match is cut out.\<close>

definition image_replace_first :: "jsstring \<Rightarrow> jsstring" where
  "image_replace_first s =
     (case regex_search image_match s of
        None \<Rightarrow> s
      | Some (front, alt, url, rest) \<Rightarrow> front @ rest)"

section \<open>The plugin controller\<close>

record OssPicbedPlugin =
  plugin_settings :: OssPicbedSettings
  uploader :: "OssUploader option"

definition onunload :: "OssPicbedPlugin \<Rightarrow> OssPicbedPlugin" where
  "onunload p = p\<lparr>uploader := None\<rparr>"

definition initUploader :: "(OSSOptions \<Rightarrow> Error + OSS) \<Rightarrow> OssPicbedPlugin \<Rightarrow> OssPicbedPlugin" where
  "initUploader newOSS p =
     (let s = plugin_settings p in
      if accessKeyId s \<noteq> [] \<and> accessKeySecret s \<noteq> [] \<and> bucket s \<noteq> [] \<and> region s \<noteq> []
      then (case snd (new_OssUploader newOSS s) of
              Inr u \<Rightarrow> p\<lparr>uploader := Some u\<rparr>
            | Inl _ \<Rightarrow> p\<lparr>uploader := None\<rparr>)
      else p)"

section \<open>The settings tab\<close>

text \<open>
  \<^verbatim>\<open>value.trim()\<close>: white space and line terminators are removed from both ends.
\<close>

definition js_space :: "nat \<Rightarrow> bool" where
  "js_space c \<longleftrightarrow>
     c \<in> {9, 10, 11, 12, 13, 32, 160, 5760, 8232, 8233, 8239, 8287, 12288, 65279}
     \<or> (8192 \<le> c \<and> c \<le> 8202)"

definition trim :: "jsstring \<Rightarrow> jsstring" where
  "trim s = rev (dropWhile js_space (rev (dropWhile js_space s)))"

text \<open>The keys of the five text settings, and the assignment \<^verbatim>\<open>settings[key] = v\<close>.\<close>

datatype SettingKey = AccessKeyId | AccessKeySecret | Bucket | Region | Prefix

fun assign :: "SettingKey \<Rightarrow> jsstring \<Rightarrow> OssPicbedSettings \<Rightarrow> OssPicbedSettings" where
  "assign AccessKeyId v s = s\<lparr>accessKeyId := v\<rparr>"
| "assign AccessKeySecret v s = s\<lparr>accessKeySecret := v\<rparr>"
| "assign Bucket v s = s\<lparr>bucket := v\<rparr>"
| "assign Region v s = s\<lparr>region := v\<rparr>"
| "assign Prefix v s = s\<lparr>prefix := v\<rparr>"

text \<open>
  The \<^verbatim>\<open>onChange\<close> handler that \<open>addTextSetting\<close> installs for a key. The uploader was
  constructed with the controller's settings object itself, so the object the handler
  assigns to is also the one the uploader reads: the assignment shows in both records.
  Saving the settings changes nothing here.
\<close>

definition onChange ::
  "(OSSOptions \<Rightarrow> Error + OSS) \<Rightarrow> SettingKey \<Rightarrow> bool \<Rightarrow> jsstring \<Rightarrow> OssPicbedPlugin \<Rightarrow> OssPicbedPlugin"
where
  "onChange newOSS key reinit v p =
     (let trimmed = trim v;
          stored = (if key = Prefix
                    then rev (dropWhile (\<lambda>c. c = 47) (rev (dropWhile (\<lambda>c. c = 47) trimmed)))
                    else trimmed);
          p1 = p\<lparr>plugin_settings := assign key stored (plugin_settings p),
                 uploader := map_option (\<lambda>u. u\<lparr>settings := assign key stored (settings u)\<rparr>)
                               (uploader p)\<rparr>
      in if reinit then initUploader newOSS p1 else p1)"

lemma posToOffset_offsetToPos:
  "i \<le> length (content ed) \<Longrightarrow> posToOffset ed (offsetToPos ed i) = i"
  by (simp add: posToOffset_def offsetToPos_def offset_roundtrip)

lemma content_replaceRange:
  "a \<le> length (content ed) \<Longrightarrow> b \<le> length (content ed) \<Longrightarrow>
   content (replaceRange text (offsetToPos ed a) (offsetToPos ed b) ed)
     = take a (content ed) @ text @ drop b (content ed)"
  by (simp add: replaceRange_def posToOffset_offsetToPos Let_def)

section \<open>The upload coordinator\<close>

text \<open>
  \<open>now\<close> is \<^verbatim>\<open>Date.now()\<close> and \<open>random36\<close> is \<^verbatim>\<open>Math.random().toString(36)\<close> at the
  call.
\<close>

definition generateUploadToken :: "nat \<Rightarrow> jsstring \<Rightarrow> jsstring" where
  "generateUploadToken now random36 =
     js ''{{OSS_UPLOADING:'' @ digits now @ js ''-'' @ take 6 (drop 2 random36) @ js ''}}''"

definition replaceTokenWithImage :: "Editor \<Rightarrow> jsstring \<Rightarrow> jsstring \<Rightarrow> Editor" where
  "replaceTokenWithImage ed token url =
     (case indexOf (getValue ed) token of
        None \<Rightarrow> ed
      | Some index \<Rightarrow>
          (let from = offsetToPos ed index;
               to = offsetToPos ed (index + length token);
               markdown = js ''![]('' @ url @ js '')'';
               ed1 = replaceRange markdown from to ed;
               cursor' = getCursor ed1
           in if line cursor' = line to \<and> ch cursor' = ch to
              then setCursor ed1 (offsetToPos ed1 (index + length markdown))
              else ed1))"

definition removeToken :: "Editor \<Rightarrow> jsstring \<Rightarrow> Editor" where
  "removeToken ed token =
     (let content' = getValue ed
      in if \<not> includes_str content' token then ed
         else
           (let updated = remove_first content' token;
                ed1 = setValue ed updated
            in setCursor ed1 (offsetToPos ed1 (length updated))))"

lemma pasted_cut_shorter:
  assumes "regex_search pasted_match (content ed) = Some (front, rest)"
  shows "length (content (replaceRange []
            (offsetToPos ed (length front))
            (offsetToPos ed (length front + (length (content ed) - length front - length rest)))
            ed)) < length (content ed)"
proof -
  from pasted_search_Some [OF assms] obtain mt where
    c: "content ed = front @ mt @ rest" and mt: "mt \<noteq> []" by blast
  have n: "length (content ed) - length front - length rest = length mt"
    using c by simp
  have "content (replaceRange [] (offsetToPos ed (length front))
          (offsetToPos ed (length front + length mt)) ed) = front @ rest"
    using c by (subst content_replaceRange) simp_all
  with mt c show ?thesis by (simp add: n)
qed

text \<open>
  The loop of \<open>cleanupPastedImages\<close>: the search starts from the beginning of the
  current text each time, and the match found is cut out of the document.
\<close>

function cleanupPastedImages :: "Editor \<Rightarrow> Editor" where
  "cleanupPastedImages ed =
     (case regex_search pasted_match (getValue ed) of
        None \<Rightarrow> ed
      | Some (front, rest) \<Rightarrow>
          (let index = length front;
               n = length (getValue ed) - length front - length rest;
               start = offsetToPos ed index;
               stop = offsetToPos ed (index + n)
           in cleanupPastedImages (replaceRange [] start stop ed)))"
  by pat_completeness auto
termination
proof (relation "measure (\<lambda>ed. length (content ed))")
  show "wf (measure (\<lambda>ed. length (content ed)))" by simp
next
  fix ed :: Editor and x2 :: "jsstring \<times> jsstring" and front rest :: jsstring
    and index n :: nat and start stop :: EditorPosition
  assume "regex_search pasted_match (getValue ed) = Some x2" "(front, rest) = x2"
    "index = length front" "n = length (getValue ed) - length front - length rest"
    "start = offsetToPos ed index" "stop = offsetToPos ed (index + n)"
  then show "(replaceRange [] start stop ed, ed) \<in> measure (\<lambda>ed. length (content ed))"
    using pasted_cut_shorter [of ed front rest] by (simp add: getValue_def)
qed

declare cleanupPastedImages.simps [simp del]

text \<open>
  What the plugin acts on: the editor, the notices shown to the user, the errors written
  to the console (with the key they are about) and the keys sent to the storage service
  for deletion.
\<close>

record World =
  editor :: Editor
  notices :: "jsstring list"
  console :: "(jsstring \<times> Error) list"
  deleted :: "jsstring list"

definition Notice :: "jsstring \<Rightarrow> World \<Rightarrow> World" where
  "Notice msg w = w\<lparr>notices := notices w @ [msg]\<rparr>"

text \<open>\<^verbatim>\<open>error?.message || error\<close> inside a template literal.\<close>

fun error_text :: "Error \<Rightarrow> jsstring" where
  "error_text (Error msg) = (if msg \<noteq> [] then msg else js ''Error'')"

text \<open>
  \<open>handleImageUpload\<close> after its \<^verbatim>\<open>await\<close>: \<open>result\<close> is the settled upload, and the
  editor is the one found at that moment.
\<close>

definition upload_settled :: "jsstring \<Rightarrow> Error + (jsstring \<times> jsstring) \<Rightarrow> World \<Rightarrow> World" where
  "upload_settled token result w =
     (case result of
        Inr (url, key) \<Rightarrow>
          Notice (js ''Image uploaded successfully'')
            (w\<lparr>editor := cleanupPastedImages (replaceTokenWithImage (editor w) token url)\<rparr>)
      | Inl error \<Rightarrow>
          Notice (js ''Upload failed: '' @ error_text error)
            (w\<lparr>editor := removeToken (editor w) token\<rparr>))"

text \<open>
  \<open>handleImageUpload\<close>. The token is made from \<open>now\<close> and \<open>random36\<close>, the upload starts
  at \<open>now'\<close>; \<open>during\<close> is what happens to the editor while the upload is awaited.
\<close>

definition handleImageUpload ::
  "Remote \<Rightarrow> OssUploader \<Rightarrow> nat \<Rightarrow> jsstring \<Rightarrow> nat \<Rightarrow> (Editor \<Rightarrow> Editor) \<Rightarrow> File \<Rightarrow> World \<Rightarrow> World"
where
  "handleImageUpload r u now random36 now' during file w =
     (let token = generateUploadToken now random36;
          ed1 = insertAt token (getCursor (editor w)) (editor w);
          result = upload r u now' file
      in upload_settled token result (w\<lparr>editor := during ed1\<rparr>))"

section \<open>The deletion coordinator\<close>

text \<open>
  \<open>deleteImage\<close>; \<open>during\<close> is what happens to the editor while the delete request is
  awaited.
\<close>

definition deleteImage ::
  "(jsstring \<Rightarrow> jsstring option) \<Rightarrow> Remote \<Rightarrow> OssUploader \<Rightarrow> (Editor \<Rightarrow> Editor) \<Rightarrow>
   jsstring \<Rightarrow> nat \<Rightarrow> World \<Rightarrow> World"
where
  "deleteImage URL r u during url lineNumber w =
     (let key = parseKeyFromUrl URL url
      in if key = [] then Notice (js ''Invalid image URL'') w
         else
           (let (sent, outcome) = delete r u 0 key;
                w1 = w\<lparr>editor := during (editor w), deleted := deleted w @ sent\<rparr>
            in case outcome of
                 Some error \<Rightarrow> Notice (js ''Delete failed: '' @ error_text error) w1
               | None \<Rightarrow>
                   (case getLine (editor w1) lineNumber of
                      Inl error \<Rightarrow> Notice (js ''Delete failed: '' @ error_text error) w1
                    | Inr line' \<Rightarrow>
                        Notice (js ''Image deleted successfully'')
                          (w1\<lparr>editor := setLine (editor w1) lineNumber
                                           (image_replace_first line')\<rparr>))))"

text \<open>
  \<open>deleteAllImages\<close>; \<open>during\<close> is what happens to the editor while the delete requests
  are awaited. Every request is made; a failed one is written to the console.
\<close>

definition deleteAllImages ::
  "(jsstring \<Rightarrow> jsstring option) \<Rightarrow> Remote \<Rightarrow> OssUploader \<Rightarrow> (Editor \<Rightarrow> Editor) \<Rightarrow> World \<Rightarrow> World"
where
  "deleteAllImages URL r u during w =
     (let content' = getValue (editor w);
          matches = image_matchAll content' 
      in if length matches = 0 then Notice (js ''No images found'') w
         else
           (let keys = filter (\<lambda>key. key \<noteq> [])
                         (map (\<lambda>match. parseKeyFromUrl URL (snd match)) matches);
                settled = map (\<lambda>(i, key). (key, delete r u i key)) (enumerate 0 keys);
                w1 = w\<lparr>editor := during (editor w),
                       deleted := deleted w @ concat (map (\<lambda>(key, sent, outcome). sent) settled),
                       console := console w @
                         concat (map (\<lambda>(key, sent, outcome).
                                        case outcome of None \<Rightarrow> [] | Some error \<Rightarrow> [(key, error)])
                                   settled)\<rparr>
            in Notice (js ''Deleted '' @ digits (length keys) @ js '' image(s)'')
                 (w1\<lparr>editor := setValue (editor w1) (image_replaceAll content')\<rparr>)))"

text \<open>A token as \<open>generateUploadToken\<close> makes it, and a world around a given document.\<close>

definition example_token :: jsstring where
  "example_token = generateUploadToken 1 (js ''0.abc'')"

definition example_world :: "jsstring \<Rightarrow> World" where
  "example_world s = \<lparr>editor = \<lparr>content = s, cursor = 0\<rparr>, notices = [], console = [], deleted = []\<rparr>"

text \<open>
  Modelled from the storage library (ali-oss; its source is not part of the repository):
  what the client constructor checks of its options before it returns a client. The key
  id and the key secret must be present; a bucket name, when present, must have 3 to 63
  characters, each a lowercase letter, a digit, a hyphen or an underscore, the first and
  the last not a hyphen; the region must be present and made of letters, digits, hyphens
  and underscores.
\<close>

definition bucket_name_ok :: "jsstring \<Rightarrow> bool" where
  "bucket_name_ok b \<longleftrightarrow>
     3 \<le> length b \<and> length b \<le> 63
     \<and> list_all (\<lambda>c. (97 \<le> c \<and> c \<le> 122) \<or> ascii_digit c \<or> c = 45 \<or> c = 95) b
     \<and> hd b \<noteq> 45 \<and> last b \<noteq> 45"

definition region_ok :: "jsstring \<Rightarrow> bool" where
  "region_ok r \<longleftrightarrow>
     r \<noteq> [] \<and> list_all (\<lambda>c. ascii_alpha c \<or> ascii_digit c \<or> c = 45 \<or> c = 95) r"

definition ali_oss_new :: "OSSOptions \<Rightarrow> Error + OSS" where
  "ali_oss_new opts =
     (if opt_accessKeyId opts = [] \<or> opt_accessKeySecret opts = []
      then Inl (Error (js ''require accessKeyId, accessKeySecret''))
      else if opt_bucket opts \<noteq> [] \<and> \<not> bucket_name_ok (opt_bucket opts)
      then Inl (Error (js ''The bucket must be conform to the specifications''))
      else if \<not> region_ok (opt_region opts)
      then Inl (Error (js ''The region must be conform to the specifications''))
      else Inr (OSS opts))"

text \<open>Complete settings the library accepts, and the same with a one-letter bucket name.\<close>

definition example_settings :: OssPicbedSettings where
  "example_settings =
     \<lparr>accessKeyId = js ''id'', accessKeySecret = js ''secret'', bucket = js ''my-bucket'',
      region = js ''oss-cn-beijing'', prefix = [], usePublicUrl = True\<rparr>"

definition short_bucket_settings :: OssPicbedSettings where
  "short_bucket_settings = example_settings\<lparr>bucket := js ''b''\<rparr>"

text \<open>The controller as \<^verbatim>\<open>onload\<close> leaves it when the stored settings are \<open>example_settings\<close>.\<close>

definition loaded_plugin :: OssPicbedPlugin where
  "loaded_plugin = initUploader ali_oss_new \<lparr>plugin_settings = example_settings, uploader = None\<rparr>"

text \<open>
  Storage services for the examples: one where every request succeeds, one where every
  request fails, one where only the second delete request fails.
\<close>

definition quiet_remote :: Remote where
  "quiet_remote =
     \<lparr>put_outcome = (\<lambda>c key f m. None), delete_outcome = (\<lambda>c i key. None),
      signatureUrl = (\<lambda>c key expires. Inr (js ''signed''))\<rparr>"

definition failing_remote :: Remote where
  "failing_remote =
     \<lparr>put_outcome = (\<lambda>c key f m. Some (Error (js ''timeout''))),
      delete_outcome = (\<lambda>c i key. Some (Error (js ''timeout''))),
      signatureUrl = (\<lambda>c key expires. Inr (js ''signed''))\<rparr>"

definition example_uploader :: OssUploader where
  "example_uploader =
     \<lparr>settings = example_settings, client = OSS (client_options example_settings)\<rparr>"

text \<open>An edit made while a request is awaited: the user types at the end of the document.\<close>

definition typing_hello :: "Editor \<Rightarrow> Editor" where
  "typing_hello ed = ed\<lparr>content := content ed @ js ''hello''\<rparr>"

text \<open>
  A text laid out as gaps and matches in turn: the first gap, the first match, the second
  gap, and so on.
\<close>

fun weave :: "jsstring list \<Rightarrow> jsstring list \<Rightarrow> jsstring" where
  "weave (g # gs) (m # ms) = g @ m @ weave gs ms"
| "weave gs [] = concat gs"
| "weave [] ms = concat ms"

definition second_fails :: Remote where
  "second_fails =
     \<lparr>put_outcome = (\<lambda>c key f m. None),
      delete_outcome = (\<lambda>c i key. if i = 1 then Some (Error (js ''timeout'')) else None),
      signatureUrl = (\<lambda>c key expires. Inr (js ''signed''))\<rparr>"

text \<open>The document of the single-delete scenario: one reference, then text.\<close>

definition scenario_url :: jsstring where
  "scenario_url = js ''https://b.r.aliyuncs.com/a%2Fb.png''"

definition scenario_world :: World where
  "scenario_world = example_world (js ''![]('' @ scenario_url @ js '') and text'')"

text \<open>
  A pasted file, an uploader whose prefix setting is \<^verbatim>\<open>..\<close>, and a key with a space and
  a character outside ASCII.
\<close>

definition example_file :: File where
  "example_file = \<lparr>name = js ''image.png'', mime = js ''image/png''\<rparr>"

definition dotted_uploader :: OssUploader where
  "dotted_uploader =
     \<lparr>settings = example_settings\<lparr>prefix := js ''..''\<rparr>,
      client = OSS (client_options example_settings)\<rparr>"

text \<open>An uploader whose bucket setting holds a slash.\<close>

definition slashed_uploader :: OssUploader where
  "slashed_uploader =
     \<lparr>settings = example_settings\<lparr>bucket := js ''a/b''\<rparr>,
      client = OSS (client_options example_settings)\<rparr>"

definition example_key :: jsstring where
  "example_key = js ''my notes/'' @ [22270] @ js ''/1.png''"

section \<open>Construction of the storage client\<close>

lemma split_on_nonempty: "split_on c s \<noteq> []"
  by (induction s) (auto split: list.splits)

text \<open>
  C3, as the code has it. Validation comes first. When any of the four required fields is
  empty, construction fails with the validation error and the library's constructor has
  not been called. When the four are non-empty, the library's constructor is called
  once, with the four fields and \<^verbatim>\<open>secure: true\<close>, and construction ends as that call
  ends: with an uploader around the client it returns, or with the error it throws.
\<close>

theorem construction_validates_first:
  "(accessKeyId s \<noteq> [] \<and> accessKeySecret s \<noteq> [] \<and> bucket s \<noteq> [] \<and> region s \<noteq> [] \<longrightarrow>
      new_OssUploader newOSS s
        = ([client_options s],
           (case newOSS (client_options s) of
              Inl e \<Rightarrow> Inl e
            | Inr c \<Rightarrow> Inr \<lparr>settings = s, client = c\<rparr>)))
   \<and> (accessKeyId s = [] \<or> accessKeySecret s = [] \<or> bucket s = [] \<or> region s = [] \<longrightarrow>
      (\<exists>msg. new_OssUploader newOSS s = ([], Inl (Error msg))))"
  by (auto simp: new_OssUploader_def validateSettings_def split: sum.splits)

lemma example_settings_accepted:
  "ali_oss_new (client_options example_settings) = Inr (OSS (client_options example_settings))"
  by (simp add: ali_oss_new_def client_options_def example_settings_def bucket_name_ok_def
      region_ok_def ascii_alpha_def ascii_digit_def js_def)

theorem construction_validates_first_witness:
  "new_OssUploader ali_oss_new example_settings =
     ([client_options example_settings],
      Inr \<lparr>settings = example_settings, client = OSS (client_options example_settings)\<rparr>)
   \<and> (\<exists>msg. new_OssUploader ali_oss_new (example_settings\<lparr>region := []\<rparr>) = ([], Inl (Error msg)))"
proof -
  have ok: "accessKeyId example_settings \<noteq> [] \<and> accessKeySecret example_settings \<noteq> []
      \<and> bucket example_settings \<noteq> [] \<and> region example_settings \<noteq> []"
    by (simp add: example_settings_def js_def)
  have missing: "region (example_settings\<lparr>region := []\<rparr>) = []"
    by simp
  from construction_validates_first [of example_settings ali_oss_new] ok
  have first: "new_OssUploader ali_oss_new example_settings =
     ([client_options example_settings],
      Inr \<lparr>settings = example_settings, client = OSS (client_options example_settings)\<rparr>)"
    by (simp add: example_settings_accepted)
  from construction_validates_first [of "example_settings\<lparr>region := []\<rparr>" ali_oss_new] missing
  have second: "\<exists>msg. new_OssUploader ali_oss_new (example_settings\<lparr>region := []\<rparr>) = ([], Inl (Error msg))"
    by blast
  from first second show ?thesis by blast
qed

text \<open>
  C3, as stated, fails: all four fields are non-empty and the bucket name is the single
  letter \<^verbatim>\<open>b\<close>. Validation passes, the library's constructor is called and throws, and
  construction fails.
\<close>

theorem short_bucket_name_rejected:
  "accessKeyId short_bucket_settings \<noteq> [] \<and> accessKeySecret short_bucket_settings \<noteq> []
   \<and> bucket short_bucket_settings \<noteq> [] \<and> region short_bucket_settings \<noteq> []
   \<and> new_OssUploader ali_oss_new short_bucket_settings
       = ([client_options short_bucket_settings],
          Inl (Error (js ''The bucket must be conform to the specifications'')))"
  by (simp add: short_bucket_settings_def example_settings_def new_OssUploader_def
      validateSettings_def ali_oss_new_def client_options_def bucket_name_ok_def js_def)

section \<open>Generated file names\<close>

lemma split_on_append_sep: "split_on c (xs @ c # ys) = split_on c xs @ split_on c ys"
  by (induction xs) (auto simp: split_on_nonempty split: list.splits)

lemma last_split_on_sep: "last (split_on c (xs @ c # ys)) = last (split_on c ys)"
  by (simp add: split_on_append_sep split_on_nonempty)

lemma split_on_no_sep: "c \<notin> set s \<Longrightarrow> split_on c s = [s]"
  by (induction s) auto

lemma generateFileName_extension:
  "46 \<notin> set ext \<Longrightarrow> ext \<noteq> [] \<Longrightarrow> name f = base @ 46 # ext \<Longrightarrow>
   generateFileName now f = digits now @ js ''.'' @ ext"
  by (simp add: generateFileName_def last_split_on_sep split_on_no_sep)

lemma generateFileName_png:
  "name f = base @ js ''.png'' \<Longrightarrow> generateFileName now f = digits now @ js ''.png''"
  using generateFileName_extension [of "js ''png''" f base now]
  by (simp add: js_def)

text \<open>
  C5. A file named \<^verbatim>\<open>image\<close> has no extension; uploaded at time 1700000000000 its
  generated name is nevertheless \<^verbatim>\<open>1700000000000.image\<close>: the last piece of the
  name split at dots is the whole name when the name contains no dot.
\<close>

theorem generateFileName_no_extension:
  "generateFileName 1700000000000 \<lparr>name = js ''image'', mime = js ''image/png''\<rparr>
     = js ''1700000000000.image''"
  by (simp add: generateFileName_def digits.simps js_def)

section \<open>Ownership of the uploader\<close>

lemma onunload_clears: "uploader (onunload p) = None"
  by (simp add: onunload_def)

lemma initUploader_failed_construction:
  "accessKeyId (plugin_settings p) \<noteq> [] \<Longrightarrow> accessKeySecret (plugin_settings p) \<noteq> [] \<Longrightarrow>
   bucket (plugin_settings p) \<noteq> [] \<Longrightarrow> region (plugin_settings p) \<noteq> [] \<Longrightarrow>
   newOSS (client_options (plugin_settings p)) = Inl e \<Longrightarrow>
   uploader (initUploader newOSS p) = None"
  by (simp add: initUploader_def new_OssUploader_def validateSettings_def)

lemma loaded_plugin_uploader:
  "loaded_plugin
     = \<lparr>plugin_settings = example_settings,
        uploader = Some \<lparr>settings = example_settings,
                         client = OSS (client_options example_settings)\<rparr>\<rparr>"
proof -
  have "accessKeyId example_settings \<noteq> [] \<and> accessKeySecret example_settings \<noteq> []
      \<and> bucket example_settings \<noteq> [] \<and> region example_settings \<noteq> []"
    by (simp add: example_settings_def js_def)
  then show ?thesis
    by (simp add: loaded_plugin_def initUploader_def new_OssUploader_def validateSettings_def
        example_settings_accepted)
qed

text \<open>
  C9. The plugin is loaded with complete settings and holds an uploader. The user then
  empties the bucket field of the settings tab: the handler stores the empty string and
  runs \<open>initUploader\<close>. No storage client can be constructed from the settings as they
  are now, yet the controller still holds the uploader made before (whose settings are
  the controller's own, so its bucket is empty too); running \<open>initUploader\<close> once more
  changes nothing.
\<close>

theorem initUploader_keeps_stale_uploader:
  "plugin_settings (onChange ali_oss_new Bucket True [] loaded_plugin)
     = example_settings\<lparr>bucket := []\<rparr>
   \<and> new_OssUploader ali_oss_new (example_settings\<lparr>bucket := []\<rparr>)
     = ([], Inl (Error (js ''Bucket or Region is empty'')))
   \<and> uploader (onChange ali_oss_new Bucket True [] loaded_plugin)
     = Some \<lparr>settings = example_settings\<lparr>bucket := []\<rparr>,
             client = OSS (client_options example_settings)\<rparr>
   \<and> uploader (initUploader ali_oss_new
        \<lparr>plugin_settings = example_settings\<lparr>bucket := []\<rparr>,
         uploader = Some \<lparr>settings = example_settings\<lparr>bucket := []\<rparr>,
                          client = OSS (client_options example_settings)\<rparr>\<rparr>)
     = Some \<lparr>settings = example_settings\<lparr>bucket := []\<rparr>,
             client = OSS (client_options example_settings)\<rparr>"
  by (simp add: loaded_plugin_uploader onChange_def trim_def Let_def initUploader_def
      new_OssUploader_def validateSettings_def)
     (simp add: example_settings_def js_def)

section \<open>Settlement of an upload\<close>

lemma indexOf_None_iff: "indexOf s t = None \<longleftrightarrow> \<not> sublist t s"
proof (induction s)
  case Nil
  then show ?case by auto
next
  case (Cons c cs)
  then show ?case by (auto simp: sublist_Cons_right)
qed

lemma indexOf_Some:
  "indexOf s t = Some i \<Longrightarrow> s = take i s @ t @ drop (i + length t) s \<and> i + length t \<le> length s"
proof (induction s arbitrary: i)
  case Nil
  then show ?case by (auto split: if_splits)
next
  case (Cons c cs)
  show ?case
  proof (cases "Sublist.prefix t (c # cs)")
    case True
    with Cons.prems have "i = 0" by simp
    moreover from True obtain zs where zs: "c # cs = t @ zs" by (auto simp: Sublist.prefix_def)
    moreover from zs have "length (c # cs) = length t + length zs" by (metis length_append)
    ultimately show ?thesis by simp
  next
    case False
    with Cons.prems obtain j where j: "indexOf cs t = Some j" "i = Suc j" by auto
    from Cons.IH [OF j(1)] j(2) show ?thesis by simp
  qed
qed

lemma indexOf_prefix: "Sublist.prefix t s \<Longrightarrow> indexOf s t = Some 0"
  by (cases s) simp_all

lemma indexOf_first:
  "(\<And>p q. pre @ t @ post = p @ t @ q \<Longrightarrow> length pre \<le> length p) \<Longrightarrow>
   indexOf (pre @ t @ post) t = Some (length pre)"
proof (induction pre)
  case Nil
  have "indexOf (t @ post) t = Some 0"
    by (rule indexOf_prefix) simp
  then show ?case by simp
next
  case (Cons c pre)
  have np: "\<not> Sublist.prefix t ((c # pre) @ t @ post)"
  proof
    assume "Sublist.prefix t ((c # pre) @ t @ post)"
    then obtain q where "(c # pre) @ t @ post = [] @ t @ q" by (auto simp: Sublist.prefix_def)
    from Cons.prems [OF this] show False by simp
  qed
  have "indexOf (pre @ t @ post) t = Some (length pre)"
  proof (rule Cons.IH)
    fix p q assume "pre @ t @ post = p @ t @ q"
    then have "(c # pre) @ t @ post = (c # p) @ t @ q" by simp
    from Cons.prems [OF this] show "length pre \<le> length p" by simp
  qed
  with np show ?case by simp
qed

lemma content_setCursor: "content (setCursor ed p) = content ed"
  by (simp add: setCursor_def)

lemma replaceTokenWithImage_absent:
  "indexOf (content ed) token = None \<Longrightarrow> replaceTokenWithImage ed token url = ed"
  by (simp add: replaceTokenWithImage_def getValue_def)

lemma content_replaceTokenWithImage:
  assumes "indexOf (content ed) token = Some i"
  shows "content (replaceTokenWithImage ed token url)
    = take i (content ed) @ js ''![]('' @ url @ js '')'' @ drop (i + length token) (content ed)"
proof -
  from indexOf_Some [OF assms] have le: "i + length token \<le> length (content ed)" by simp
  then have i: "i \<le> length (content ed)" by simp
  show ?thesis
    using assms content_replaceRange [OF i le]
    by (simp add: replaceTokenWithImage_def getValue_def Let_def content_setCursor)
qed

lemma content_removeToken: "content (removeToken ed token) = remove_first (content ed) token"
  by (simp add: removeToken_def getValue_def Let_def includes_str_def content_setCursor
      setValue_def remove_first_def)

text \<open>
  C10. When a successful upload settles and the token is nowhere in the document, the
  replacement step returns the editor as it found it (text and cursor: nothing is
  inserted), and the settlement still runs the cleanup pass on that editor and shows the
  success notice.
\<close>

theorem token_absent_no_insertion:
  assumes "\<not> sublist token (content (editor w))"
  shows "replaceTokenWithImage (editor w) token url = editor w
    \<and> upload_settled token (Inr (url, key)) w
        = Notice (js ''Image uploaded successfully'')
            (w\<lparr>editor := cleanupPastedImages (editor w)\<rparr>)"
  using assms by (simp add: upload_settled_def replaceTokenWithImage_absent indexOf_None_iff)

theorem token_absent_no_insertion_witness:
  "replaceTokenWithImage (editor (example_world (js ''edited''))) example_token (js ''u'')
     = editor (example_world (js ''edited''))
   \<and> upload_settled example_token (Inr (js ''u'', js ''k'')) (example_world (js ''edited''))
     = Notice (js ''Image uploaded successfully'')
         ((example_world (js ''edited''))\<lparr>editor := cleanupPastedImages (editor (example_world (js ''edited'')))\<rparr>)"
proof -
  have "indexOf (js ''edited'') example_token = None"
    by (simp add: example_token_def generateUploadToken_def js_def)
  then have "\<not> sublist example_token (content (editor (example_world (js ''edited''))))"
    by (simp add: indexOf_None_iff example_world_def)
  from token_absent_no_insertion [OF this] show ?thesis .
qed

text \<open>
  C1, as the code has it. The token is looked up by its literal text and the first
  occurrence found is the one acted on: when the document is \<open>pre @ token @ post\<close> and
  no occurrence of the token's text starts before \<open>pre\<close> ends (in particular when the
  text occurs exactly once), the replacement step of a successful settlement yields
  \<open>pre @ ![](url) @ post\<close>, which then goes through the cleanup pass, and a failed
  settlement leaves \<open>pre @ post\<close>. Later occurrences of the same text stay where they
  are.
\<close>

theorem settled_token_first_occurrence:
  assumes c: "content (editor w) = pre @ token @ post"
    and first: "\<forall>p q. content (editor w) = p @ token @ q \<longrightarrow> length pre \<le> length p"
  shows "content (replaceTokenWithImage (editor w) token url) = pre @ js ''![]('' @ url @ js '')'' @ post
    \<and> editor (upload_settled token (Inr (url, key)) w)
        = cleanupPastedImages (replaceTokenWithImage (editor w) token url)
    \<and> content (editor (upload_settled token (Inl e) w)) = pre @ post"
proof -
  have "indexOf (pre @ token @ post) token = Some (length pre)"
    by (rule indexOf_first) (use c first in auto)
  then have i: "indexOf (content (editor w)) token = Some (length pre)" by (simp add: c)
  have 1: "content (replaceTokenWithImage (editor w) token url) = pre @ js ''![]('' @ url @ js '')'' @ post"
    by (simp add: content_replaceTokenWithImage [OF i]) (simp add: c)
  have 2: "content (removeToken (editor w) token) = pre @ post"
    by (simp add: content_removeToken remove_first_def i) (simp add: c)
  from 1 2 show ?thesis by (simp add: upload_settled_def Notice_def)
qed

theorem settled_token_first_occurrence_witness:
  "content (replaceTokenWithImage (editor (example_world (js ''a'' @ example_token @ js ''b''))) example_token (js ''u''))
      = js ''a'' @ js ''![]('' @ js ''u'' @ js '')'' @ js ''b''
    \<and> editor (upload_settled example_token (Inr (js ''u'', js ''k'')) (example_world (js ''a'' @ example_token @ js ''b'')))
        = cleanupPastedImages (replaceTokenWithImage (editor (example_world (js ''a'' @ example_token @ js ''b''))) example_token (js ''u''))
    \<and> content (editor (upload_settled example_token (Inl (Error (js ''timeout''))) (example_world (js ''a'' @ example_token @ js ''b'')))) = js ''a'' @ js ''b''"
proof -
  have c: "content (editor (example_world (js ''a'' @ example_token @ js ''b''))) = js ''a'' @ example_token @ js ''b''"
    by (simp add: example_world_def)
  have first: "\<forall>p q. content (editor (example_world (js ''a'' @ example_token @ js ''b''))) = p @ example_token @ q
      \<longrightarrow> length (js ''a'') \<le> length p"
  proof (intro allI impI)
    fix p q
    assume "content (editor (example_world (js ''a'' @ example_token @ js ''b''))) = p @ example_token @ q"
    then have "js ''a'' @ example_token @ js ''b'' = p @ example_token @ q" by (simp add: c)
    then have "p \<noteq> []" by (auto simp: example_token_def generateUploadToken_def js_def)
    then show "length (js ''a'') \<le> length p" by (cases p) (simp_all add: js_def)
  qed
  from settled_token_first_occurrence [OF c first] show ?thesis .
qed

text \<open>
  C1, as stated, fails: the user copies the placeholder while the upload is in flight,
  so the document holds the token's text twice when the upload fails. Only the first
  occurrence is removed and the token is still in the document afterwards.
\<close>

theorem duplicated_token_survives:
  "sublist example_token
     (content (editor (upload_settled example_token (Inl (Error (js ''timeout'')))
        (example_world (example_token @ js '' '' @ example_token)))))"
proof -
  have "indexOf (example_token @ js '' '' @ example_token) example_token = Some 0"
    by (rule indexOf_prefix) simp
  then have "content (editor (upload_settled example_token (Inl (Error (js ''timeout'')))
        (example_world (example_token @ js '' '' @ example_token)))) = js '' '' @ example_token"
    by (simp add: upload_settled_def Notice_def content_removeToken remove_first_def example_world_def)
  then show ?thesis by (simp add: sublist_append)
qed


section \<open>Deleting one image\<close>

lemma image_replace_first_cut:
  "regex_search image_match l = Some (front, alt, url, rest) \<Longrightarrow>
   l = front @ js ''!['' @ alt @ js '']('' @ url @ js '')'' @ rest \<and> image_replace_first l = front @ rest"
  by (auto simp: image_replace_first_def dest!: regex_search_Some image_match_Some)

lemma image_replace_first_none:
  "regex_search image_match l = None \<Longrightarrow> image_replace_first l = l"
  by (simp add: image_replace_first_def)

text \<open>
  C8. For a URL that resolves to a key: when the delete request fails, the editor after
  \<open>deleteImage\<close> is the editor as the wait left it (nothing of the plugin's is written to
  it) and the notice carries the error; when the request succeeds and the line exists,
  the line is set to itself with the first image reference cut out
  (\<open>image_replace_first_cut\<close>: the text before and after the match is kept), the other
  lines as they were; and the editor differs from what the wait left only if the request
  succeeded.
\<close>

theorem deleteImage_document:
  assumes key: "parseKeyFromUrl URL url \<noteq> []"
  shows "(\<forall>e. delete_outcome r (client u) 0 (parseKeyFromUrl URL url) = Some e \<longrightarrow>
            editor (deleteImage URL r u during url n w) = during (editor w)
            \<and> notices (deleteImage URL r u during url n w)
                = notices w @ [js ''Delete failed: '' @ error_text e])
    \<and> (delete_outcome r (client u) 0 (parseKeyFromUrl URL url) = None \<longrightarrow>
         (\<forall>l. getLine (during (editor w)) n = Inr l \<longrightarrow>
            content (editor (deleteImage URL r u during url n w))
              = join_with 10 ((split_on 10 (content (during (editor w))))[n := image_replace_first l])
            \<and> notices (deleteImage URL r u during url n w)
                = notices w @ [js ''Image deleted successfully'']))
    \<and> (editor (deleteImage URL r u during url n w) \<noteq> during (editor w) \<longrightarrow>
         delete_outcome r (client u) 0 (parseKeyFromUrl URL url) = None)"
  using key
  by (auto simp: deleteImage_def delete_def Notice_def Let_def setLine_def split: option.splits sum.splits)

lemma scenario_key: "parseKeyFromUrl URL_pathname scenario_url = js ''a/b.png''"
  by (simp add: scenario_url_def parseKeyFromUrl_def js_def eval_url)

lemma scenario_line:
  "getLine (editor scenario_world) 0 = Inr (js ''![]('' @ scenario_url @ js '') and text'')"
  by (simp add: scenario_world_def example_world_def getLine_def scenario_url_def js_def)

lemma scenario_cut:
  "image_replace_first (js ''![]('' @ scenario_url @ js '') and text'') = js '' and text''"
  by (simp add: image_replace_first_def image_match_def lit_def scenario_url_def js_def
      line_terminator_def)

theorem deleteImage_document_witness:
  "editor (deleteImage URL_pathname failing_remote example_uploader id scenario_url 0 scenario_world)
     = editor scenario_world
   \<and> notices (deleteImage URL_pathname failing_remote example_uploader id scenario_url 0 scenario_world)
     = [js ''Delete failed: timeout'']
   \<and> content (editor (deleteImage URL_pathname quiet_remote example_uploader id scenario_url 0 scenario_world))
     = js '' and text''
   \<and> notices (deleteImage URL_pathname quiet_remote example_uploader id scenario_url 0 scenario_world)
     = [js ''Image deleted successfully'']"
proof -
  have key: "parseKeyFromUrl URL_pathname scenario_url \<noteq> []"
    by (simp add: scenario_key js_def)
  have fails: "delete_outcome failing_remote (client example_uploader) 0
      (parseKeyFromUrl URL_pathname scenario_url) = Some (Error (js ''timeout''))"
    by (simp add: failing_remote_def)
  have succeeds: "delete_outcome quiet_remote (client example_uploader) 0
      (parseKeyFromUrl URL_pathname scenario_url) = None"
    by (simp add: quiet_remote_def)
  have n: "notices scenario_world = []"
    by (simp add: scenario_world_def example_world_def)
  have l: "getLine (id (editor scenario_world)) 0 = Inr (js ''![]('' @ scenario_url @ js '') and text'')"
    by (simp add: scenario_line)
  have j: "join_with 10 ((split_on 10 (content (id (editor scenario_world))))
      [0 := image_replace_first (js ''![]('' @ scenario_url @ js '') and text'')]) = js '' and text''"
    by (simp add: scenario_cut) (simp add: scenario_world_def example_world_def scenario_url_def js_def)
  from deleteImage_document [OF key, of failing_remote example_uploader id 0 scenario_world] fails
  have 1: "editor (deleteImage URL_pathname failing_remote example_uploader id scenario_url 0 scenario_world)
       = editor scenario_world
     \<and> notices (deleteImage URL_pathname failing_remote example_uploader id scenario_url 0 scenario_world)
       = [js ''Delete failed: timeout'']"
    by (simp add: n) (simp add: js_def)
  from deleteImage_document [OF key, of quiet_remote example_uploader id 0 scenario_world] succeeds l
  have 2: "content (editor (deleteImage URL_pathname quiet_remote example_uploader id scenario_url 0 scenario_world))
       = js '' and text''
     \<and> notices (deleteImage URL_pathname quiet_remote example_uploader id scenario_url 0 scenario_world)
       = [js ''Image deleted successfully'']"
    by (simp only: j n) simp
  from 1 2 show ?thesis by simp
qed

section \<open>Deleting all images\<close>

lemma requests_all_sent:
  "\<forall>key \<in> set keys. key \<noteq> [] \<Longrightarrow>
   concat (map ((\<lambda>(key, sent, outcome). sent) \<circ> (\<lambda>(i, key). (key, delete r u i key)))
     (enumerate n keys)) = keys"
  by (induction keys arbitrary: n) (auto simp: delete_def)

lemma deleteAllImages_found:
  assumes "image_matchAll (content (editor w)) \<noteq> []"
  shows "deleted (deleteAllImages URL r u during w)
       = deleted w @ filter (\<lambda>key. key \<noteq> [])
           (map (\<lambda>match. parseKeyFromUrl URL (snd match)) (image_matchAll (content (editor w))))"
    and "editor (deleteAllImages URL r u during w)
       = setValue (during (editor w)) (image_replaceAll (content (editor w)))"
    and "notices (deleteAllImages URL r u during w)
       = notices w @ [js ''Deleted '' @ digits (length (filter (\<lambda>key. key \<noteq> [])
           (map (\<lambda>match. parseKeyFromUrl URL (snd match)) (image_matchAll (content (editor w))))))
           @ js '' image(s)'']"
    and "console (deleteAllImages URL r u during w)
       = console w @ concat (map ((\<lambda>(key, sent, outcome).
                                     case outcome of None \<Rightarrow> [] | Some error \<Rightarrow> [(key, error)])
                                  \<circ> (\<lambda>(i, key). (key, delete r u i key)))
           (enumerate 0 (filter (\<lambda>key. key \<noteq> [])
             (map (\<lambda>match. parseKeyFromUrl URL (snd match)) (image_matchAll (content (editor w)))))))"
  using assms
  by (simp_all add: deleteAllImages_def getValue_def Let_def Notice_def requests_all_sent)

lemma image_matches_weave:
  "\<exists>gaps. length gaps = Suc (length (image_matchAll s))
     \<and> s = weave gaps (map fst (image_matchAll s))
     \<and> image_replaceAll s = concat gaps"
proof (induction s rule: image_matchAll.induct)
  case (1 s)
  show ?case
  proof (cases "regex_search image_match s")
    case None
    then have "image_matchAll s = []" "image_replaceAll s = s"
      by (simp_all add: image_matchAll.simps [of s] image_replaceAll.simps [of s])
    then have "length [s] = Suc (length (image_matchAll s))
      \<and> s = weave [s] (map fst (image_matchAll s)) \<and> image_replaceAll s = concat [s]"
      by simp
    then show ?thesis by blast
  next
    case (Some a)
    then obtain front alt url rest where a: "a = (front, alt, url, rest)" by (cases a) auto
    from "1.IH" [OF Some a [symmetric] refl refl] obtain gaps where
      g: "length gaps = Suc (length (image_matchAll rest))"
         "rest = weave gaps (map fst (image_matchAll rest))"
         "image_replaceAll rest = concat gaps" by blast
    from Some a have s: "s = front @ js ''!['' @ alt @ js '']('' @ url @ js '')'' @ rest"
      by (auto dest!: regex_search_Some image_match_Some)
    have m: "image_matchAll s = (js ''!['' @ alt @ js '']('' @ url @ js '')'', url) # image_matchAll rest"
      using Some a by (simp add: image_matchAll.simps [of s])
    have r: "image_replaceAll s = front @ image_replaceAll rest"
      using Some a by (simp add: image_replaceAll.simps [of s])
    have 1: "length (front # gaps) = Suc (length (image_matchAll s))"
      by (simp add: m g(1))
    have "weave (front # gaps) (map fst (image_matchAll s))
        = front @ js ''!['' @ alt @ js '']('' @ url @ js '')'' @ weave gaps (map fst (image_matchAll rest))"
      by (simp add: m)
    also have "\<dots> = s"
      by (simp only: g(2) [symmetric] s [symmetric])
    finally have 2: "s = weave (front # gaps) (map fst (image_matchAll s))" by simp
    have 3: "image_replaceAll s = concat (front # gaps)"
      by (simp add: r g(3))
    from 1 2 3 show ?thesis by blast
  qed
qed
lemmas eval_regex =
  image_matchAll.simps image_replaceAll.simps image_match_def lit_def js_def
  line_terminator_def

lemma three_matches:
  "image_matchAll (js ''![](a) ![](b) ![](c)'')
     = [(js ''![](a)'', js ''a''), (js ''![](b)'', js ''b''), (js ''![](c)'', js ''c'')]"
  by (simp add: eval_regex)

lemma three_stripped: "image_replaceAll (js ''![](a) ![](b) ![](c)'') = js ''  ''"
  by (simp add: eval_regex)

lemma plain_key: "parseKeyFromUrl URL_pathname [c] = (if c = 47 then [] else [c])"
proof -
  have "\<not> has_scheme (url_trim [c])"
    by (simp add: url_trim_def has_scheme_def)
  then have "URL_pathname [c] = None" by (rule URL_pathname_no_scheme)
  then show ?thesis by (simp add: parseKeyFromUrl_def)
qed

text \<open>
  C7. For every outcome of the delete requests: a request is sent for every matched
  reference with a non-empty key, whichever of them fail; and the text written to the
  document afterwards is the scanned text with every match cut out, that is, the gaps
  between the matches.
\<close>

theorem deleteAllImages_isolates_failures:
  assumes "image_matchAll (content (editor w)) \<noteq> []"
  shows "deleted (deleteAllImages URL r u during w)
       = deleted w @ filter (\<lambda>key. key \<noteq> [])
           (map (\<lambda>match. parseKeyFromUrl URL (snd match)) (image_matchAll (content (editor w))))
    \<and> content (editor (deleteAllImages URL r u during w)) = image_replaceAll (content (editor w))
    \<and> (\<exists>gaps. length gaps = Suc (length (image_matchAll (content (editor w))))
          \<and> content (editor w) = weave gaps (map fst (image_matchAll (content (editor w))))
          \<and> content (editor (deleteAllImages URL r u during w)) = concat gaps)"
  using deleteAllImages_found [OF assms, of URL r u during] image_matches_weave [of "content (editor w)"]
  by (simp add: setValue_def)

lemma three_keys:
  "filter (\<lambda>key. key \<noteq> [])
     (map (\<lambda>match. parseKeyFromUrl URL_pathname (snd match))
        (image_matchAll (js ''![](a) ![](b) ![](c)''))) = [js ''a'', js ''b'', js ''c'']"
  by (simp add: three_matches) (simp add: js_def plain_key)

theorem deleteAllImages_isolates_failures_witness:
  "deleted (deleteAllImages URL_pathname second_fails example_uploader id
      (example_world (js ''![](a) ![](b) ![](c)''))) = [js ''a'', js ''b'', js ''c'']
   \<and> content (editor (deleteAllImages URL_pathname second_fails example_uploader id
      (example_world (js ''![](a) ![](b) ![](c)'')))) = js ''  ''"
proof -
  have c: "content (editor (example_world (js ''![](a) ![](b) ![](c)''))) = js ''![](a) ![](b) ![](c)''"
    by (simp add: example_world_def)
  have d: "deleted (example_world (js ''![](a) ![](b) ![](c)'')) = []"
    by (simp add: example_world_def)
  have ne: "image_matchAll (content (editor (example_world (js ''![](a) ![](b) ![](c)'')))) \<noteq> []"
    by (simp add: c three_matches)
  from deleteAllImages_isolates_failures [OF ne, of URL_pathname second_fails example_uploader id]
  show ?thesis
    by (simp only: c d three_keys three_stripped) simp
qed

lemma second_failure_logged:
  "console (deleteAllImages URL_pathname second_fails example_uploader id
      (example_world (js ''![](a) ![](b) ![](c)''))) = [(js ''b'', Error (js ''timeout''))]"
proof -
  have c: "content (editor (example_world (js ''![](a) ![](b) ![](c)''))) = js ''![](a) ![](b) ![](c)''"
    by (simp add: example_world_def)
  have k: "console (example_world (js ''![](a) ![](b) ![](c)'')) = []"
    by (simp add: example_world_def)
  have ne: "image_matchAll (content (editor (example_world (js ''![](a) ![](b) ![](c)'')))) \<noteq> []"
    by (simp add: c three_matches)
  show ?thesis
    by (simp only: deleteAllImages_found(4) [OF ne] c k three_keys)
       (simp add: enumerate_eq_zip upt_rec delete_def second_fails_def js_def)
qed

lemma deleteAllImages_none:
  "image_matchAll (content (editor w)) = [] \<Longrightarrow>
   deleteAllImages URL r u during w = Notice (js ''No images found'') w"
  by (simp add: deleteAllImages_def getValue_def Let_def)

lemma parseKeyFromUrl_empty: "parseKeyFromUrl URL [] = []"
  by (simp add: parseKeyFromUrl_def)

lemma two_matches:
  "image_matchAll (js ''![](a)![]()'') = [(js ''![](a)'', js ''a''), (js ''![]()'', [])]"
  by (simp add: eval_regex)

lemma no_match: "image_matchAll (js ''no images'') = []"
  by (simp add: eval_regex)

text \<open>
  C6, as the code has it. When the document has at least one reference, the number in the
  notice is the number of matched references whose URL resolves to a non-empty key,
  whatever the delete requests do. When it has none, nothing is done but to show the
  notice \<^verbatim>\<open>No images found\<close>.
\<close>

theorem deleteAllImages_reports_keys:
  "(image_matchAll (content (editor w)) \<noteq> [] \<longrightarrow>
      notices (deleteAllImages URL r u during w)
        = notices w @ [js ''Deleted ''
            @ digits (length (filter (\<lambda>match. parseKeyFromUrl URL (snd match) \<noteq> [])
                        (image_matchAll (content (editor w)))))
            @ js '' image(s)''])
   \<and> (image_matchAll (content (editor w)) = [] \<longrightarrow>
      deleteAllImages URL r u during w = Notice (js ''No images found'') w)"
proof -
  have "length (filter (\<lambda>key. key \<noteq> [])
           (map (\<lambda>match. parseKeyFromUrl URL (snd match)) (image_matchAll (content (editor w)))))
      = length (filter (\<lambda>match. parseKeyFromUrl URL (snd match) \<noteq> [])
           (image_matchAll (content (editor w))))"
    by (simp add: filter_map comp_def)
  then show ?thesis
    using deleteAllImages_found(3) [of w URL r u during] deleteAllImages_none [of w URL r u during]
    by simp
qed

theorem deleteAllImages_reports_keys_witness:
  "notices (deleteAllImages URL_pathname failing_remote example_uploader id
      (example_world (js ''![](a)![]()''))) = [js ''Deleted 1 image(s)'']
   \<and> deleteAllImages URL_pathname failing_remote example_uploader id
        (example_world (js ''no images''))
       = Notice (js ''No images found'') (example_world (js ''no images''))"
proof -
  have c: "content (editor (example_world (js ''![](a)![]()''))) = js ''![](a)![]()''"
    by (simp add: example_world_def)
  have n: "notices (example_world (js ''![](a)![]()'')) = []"
    by (simp add: example_world_def)
  have ne: "image_matchAll (content (editor (example_world (js ''![](a)![]()'')))) \<noteq> []"
    by (simp add: c two_matches)
  have k: "length (filter (\<lambda>match. parseKeyFromUrl URL_pathname (snd match) \<noteq> [])
      (image_matchAll (js ''![](a)![]()''))) = 1"
    by (simp add: two_matches) (simp add: js_def parseKeyFromUrl_empty plain_key)
  have none: "image_matchAll (content (editor (example_world (js ''no images'')))) = []"
    by (simp add: example_world_def no_match)
  from deleteAllImages_reports_keys
    [of "example_world (js ''![](a)![]()'')" URL_pathname failing_remote example_uploader id] ne
  have 1: "notices (deleteAllImages URL_pathname failing_remote example_uploader id
      (example_world (js ''![](a)![]()''))) = [js ''Deleted 1 image(s)'']"
    by (simp only: c n k) (simp add: digits.simps js_def)
  from deleteAllImages_reports_keys
    [of "example_world (js ''no images'')" URL_pathname failing_remote example_uploader id] none
  have 2: "deleteAllImages URL_pathname failing_remote example_uploader id
        (example_world (js ''no images''))
       = Notice (js ''No images found'') (example_world (js ''no images''))"
    by blast
  from 1 2 show ?thesis by blast
qed

lemma one_match: "image_matchAll (js ''![]()'') = [(js ''![]()'', [])]"
  by (simp add: eval_regex)

text \<open>
  C6, as stated, fails: the document \<^verbatim>\<open>![]()\<close> has one matched reference, and the
  notice reports none.
\<close>

theorem empty_url_reference_not_counted:
  "length (image_matchAll (content (editor (example_world (js ''![]()''))))) = 1
   \<and> notices (deleteAllImages URL_pathname quiet_remote example_uploader id
        (example_world (js ''![]()''))) = [js ''Deleted 0 image(s)'']"
proof -
  have c: "content (editor (example_world (js ''![]()''))) = js ''![]()''"
    by (simp add: example_world_def)
  have n: "notices (example_world (js ''![]()'')) = []"
    by (simp add: example_world_def)
  have ne: "image_matchAll (content (editor (example_world (js ''![]()'')))) \<noteq> []"
    by (simp add: c one_match)
  have "notices (deleteAllImages URL_pathname quiet_remote example_uploader id
        (example_world (js ''![]()''))) = [js ''Deleted 0 image(s)'']"
    by (simp only: deleteAllImages_found(3) [OF ne] c n one_match)
       (simp add: parseKeyFromUrl_empty digits.simps js_def)
  then show ?thesis by (simp add: c one_match)
qed


lemma one_image: "image_matchAll (js ''![](a.png)'') = [(js ''![](a.png)'', js ''a.png'')]"
  by (simp add: eval_regex)

text \<open>
  C2. The document holds one reference when delete-all starts; while the delete request
  is awaited the user types \<^verbatim>\<open>hello\<close> at the end. Stripping the document as it is at
  that moment would leave \<^verbatim>\<open>hello\<close>; \<open>deleteAllImages\<close> writes the stripped text of the
  document it read before the wait, and the typed text is gone.
\<close>

theorem deleteAllImages_overwrites_concurrent_edit:
  "content (typing_hello (editor (example_world (js ''![](a.png)'')))) = js ''![](a.png)hello''
   \<and> image_replaceAll (content (typing_hello (editor (example_world (js ''![](a.png)''))))) = js ''hello''
   \<and> content (editor (deleteAllImages URL_pathname quiet_remote example_uploader typing_hello
        (example_world (js ''![](a.png)'')))) = []"
proof -
  have c: "content (editor (example_world (js ''![](a.png)''))) = js ''![](a.png)''"
    by (simp add: example_world_def)
  have ne: "image_matchAll (content (editor (example_world (js ''![](a.png)'')))) \<noteq> []"
    by (simp add: c one_image)
  have 1: "content (typing_hello (editor (example_world (js ''![](a.png)'')))) = js ''![](a.png)hello''"
    by (simp add: typing_hello_def example_world_def js_def)
  have 2: "image_replaceAll (js ''![](a.png)hello'') = js ''hello''"
    by (simp add: eval_regex)
  have 3: "image_replaceAll (js ''![](a.png)'') = []"
    by (simp add: eval_regex)
  have "content (editor (deleteAllImages URL_pathname quiet_remote example_uploader typing_hello
        (example_world (js ''![](a.png)'')))) = []"
    by (simp only: deleteAllImages_found(2) [OF ne] c 3) (simp add: setValue_def)
  with 1 2 show ?thesis by simp
qed

section \<open>The key and URL codec\<close>

text \<open>Decoding undoes encoding: first for one escaped code point, then for a string.\<close>

lemma hex_value_hex_digit: "n < 16 \<Longrightarrow> hex_value (hex_digit n) = Some n"
  by (auto simp: hex_value_def hex_digit_def ascii_digit_def)

lemma read_escape_percent_byte:
  assumes "b < 256"
  shows "read_escape (percent_byte b @ rest) = Some (b, rest)"
proof -
  from assms have "b div 16 < 16" "b mod 16 < 16" by auto
  then show ?thesis
    by (simp add: percent_byte_def hex_value_hex_digit)
qed

lemma read_escapes_percent_byte:
  "b < 256 \<Longrightarrow>
   read_escapes (Suc n) (percent_byte b @ s)
     = (case read_escapes n s of None \<Rightarrow> None | Some (bs, rest') \<Rightarrow> Some (b # bs, rest'))"
  by (simp add: read_escape_percent_byte)

lemma decode_escape:
  assumes "b < 256"
  shows "decodeURIComponent (percent_byte b @ s)
    = (if b < 128 then map_option (\<lambda>r. b # r) (decodeURIComponent s)
       else if utf8_length b = 0 then None
       else (case read_escapes (utf8_length b - 1) s of
               None \<Rightarrow> None
             | Some (bs, rest') \<Rightarrow>
                 (case utf8_decode (b # bs) of
                    None \<Rightarrow> None
                  | Some cp \<Rightarrow> map_option (\<lambda>r. utf16_encode cp @ r) (decodeURIComponent rest'))))"
proof -
  have "percent_byte b @ s = 37 # hex_digit (b div 16) # hex_digit (b mod 16) # s"
    by (simp add: percent_byte_def)
  moreover have "read_escape (37 # hex_digit (b div 16) # hex_digit (b mod 16) # s) = Some (b, s)"
    using read_escape_percent_byte [OF assms, of s] by (simp add: percent_byte_def)
  ultimately show ?thesis
    by (simp del: read_escape.simps)
qed

lemma decode_one_byte:
  assumes "cp < 128"
  shows "decodeURIComponent (percent_encode cp @ rest)
    = map_option (\<lambda>r. utf16_encode cp @ r) (decodeURIComponent rest)"
  using assms by (simp add: percent_encode_def utf8_encode_def decode_escape utf16_encode_def)

lemma decode_two_bytes:
  assumes "128 \<le> cp" "cp < 2048"
  shows "decodeURIComponent (percent_encode cp @ rest)
    = map_option (\<lambda>r. utf16_encode cp @ r) (decodeURIComponent rest)"
proof -
  define b1 where "b1 = 192 + cp div 64"
  define b2 where "b2 = 128 + cp mod 64"
  have b1: "194 \<le> b1" "b1 < 224" using assms by (auto simp: b1_def)
  have b2: "128 \<le> b2" "b2 < 192" by (auto simp: b2_def)
  have cp: "(b1 - 192) * 64 + (b2 - 128) = cp" by (simp add: b1_def b2_def)
  have enc: "percent_encode cp @ rest = percent_byte b1 @ percent_byte b2 @ rest"
    using assms by (simp add: percent_encode_def utf8_encode_def b1_def b2_def)
  have len: "utf8_length b1 = 2" using b1 by (simp add: utf8_length_def)
  have dec: "utf8_decode [b1, b2] = Some cp"
    using b2 assms by (simp add: cp continuation_def)
  have r: "read_escapes (Suc 0) (percent_byte b2 @ rest) = Some ([b2], rest)"
    using b2 by (simp add: read_escapes_percent_byte del: read_escapes.simps(2)) 
  show ?thesis
    unfolding enc using b1 b2
    by (simp add: decode_escape [of b1] len read_escape_percent_byte dec del: utf8_decode.simps)
qed

lemma regroup: "x + (64 * y + z) = c \<Longrightarrow> c = x + y * 64 + (z::nat)"
  by simp

lemma split_two: "(n::nat) mod 4096 = 64 * (n div 64 mod 64) + n mod 64"
  using mod_mult2_eq [of n 64 64] by simp

lemma split_three: "(n::nat) = n div 4096 * 4096 + n div 64 mod 64 * 64 + n mod 64"
proof -
  have "n div 4096 * 4096 + n mod 4096 = n" by (rule div_mult_mod_eq)
  then have "n div 4096 * 4096 + (64 * (n div 64 mod 64) + n mod 64) = n"
    by (simp only: split_two)
  then show ?thesis by (rule regroup)
qed

lemma split_four:
  "(n::nat) = n div 262144 * 262144 + n div 4096 mod 64 * 4096 + n div 64 mod 64 * 64 + n mod 64"
proof -
  have "n mod 262144 = 4096 * (n div 4096 mod 64) + n mod 4096"
    using mod_mult2_eq [of n 4096 64] by simp
  then have a: "n mod 262144 = 4096 * (n div 4096 mod 64) + (64 * (n div 64 mod 64) + n mod 64)"
    by (simp only: split_two)
  have "n div 262144 * 262144 + n mod 262144 = n" by (rule div_mult_mod_eq)
  then have "n div 262144 * 262144
      + (4096 * (n div 4096 mod 64) + (64 * (n div 64 mod 64) + n mod 64)) = n"
    by (simp only: a)
  then show ?thesis by (simp only: mult.commute add.assoc)
qed

lemma decode_three_bytes:
  assumes "2048 \<le> cp" "cp < 65536" "\<not> (55296 \<le> cp \<and> cp \<le> 57343)"
  shows "decodeURIComponent (percent_encode cp @ rest)
    = map_option (\<lambda>r. utf16_encode cp @ r) (decodeURIComponent rest)"
proof -
  define b1 where "b1 = 224 + cp div 4096"
  define b2 where "b2 = 128 + (cp div 64) mod 64"
  define b3 where "b3 = 128 + cp mod 64"
  have b1: "224 \<le> b1" "b1 < 240" using assms by (auto simp: b1_def)
  have b2: "128 \<le> b2" "b2 < 192" by (auto simp: b2_def)
  have b3: "128 \<le> b3" "b3 < 192" by (auto simp: b3_def)
  have "cp = (cp div 4096) * 4096 + ((cp div 64) mod 64) * 64 + cp mod 64"
    by (rule split_three)
  then have cp: "(b1 - 224) * 4096 + (b2 - 128) * 64 + (b3 - 128) = cp"
    by (simp add: b1_def b2_def b3_def)
  have enc: "percent_encode cp @ rest = percent_byte b1 @ percent_byte b2 @ percent_byte b3 @ rest"
    using assms by (simp add: percent_encode_def utf8_encode_def b1_def b2_def b3_def)
  have len: "utf8_length b1 = 3" using b1 by (simp add: utf8_length_def)
  have dec: "utf8_decode [b1, b2, b3] = Some cp"
    using b2 b3 assms by (simp add: cp continuation_def)
  show ?thesis
    unfolding enc using b1 b2 b3
    by (simp add: decode_escape [of b1] len read_escape_percent_byte dec numeral_3_eq_3
        del: utf8_decode.simps)
qed

lemma decode_four_bytes:
  assumes "65536 \<le> cp" "cp \<le> 1114111"
  shows "decodeURIComponent (percent_encode cp @ rest)
    = map_option (\<lambda>r. utf16_encode cp @ r) (decodeURIComponent rest)"
proof -
  define b1 where "b1 = 240 + cp div 262144"
  define b2 where "b2 = 128 + (cp div 4096) mod 64"
  define b3 where "b3 = 128 + (cp div 64) mod 64"
  define b4 where "b4 = 128 + cp mod 64"
  have b1: "240 \<le> b1" "b1 < 248" using assms by (auto simp: b1_def)
  have b2: "128 \<le> b2" "b2 < 192" by (auto simp: b2_def)
  have b3: "128 \<le> b3" "b3 < 192" by (auto simp: b3_def)
  have b4: "128 \<le> b4" "b4 < 192" by (auto simp: b4_def)
  have "cp = (cp div 262144) * 262144 + ((cp div 4096) mod 64) * 4096
      + ((cp div 64) mod 64) * 64 + cp mod 64"
    by (rule split_four)
  then have cp: "(b1 - 240) * 262144 + (b2 - 128) * 4096 + (b3 - 128) * 64 + (b4 - 128) = cp"
    by (simp add: b1_def b2_def b3_def b4_def)
  have enc: "percent_encode cp @ rest
      = percent_byte b1 @ percent_byte b2 @ percent_byte b3 @ percent_byte b4 @ rest"
    using assms by (simp add: percent_encode_def utf8_encode_def b1_def b2_def b3_def b4_def)
  have len: "utf8_length b1 = 4" using b1 by (simp add: utf8_length_def)
  have dec: "utf8_decode [b1, b2, b3, b4] = Some cp"
    using b2 b3 b4 assms by (simp add: cp continuation_def)
  show ?thesis
    unfolding enc using b1 b2 b3 b4
    by (simp add: decode_escape [of b1] len read_escape_percent_byte dec numeral_3_eq_3
        del: utf8_decode.simps)
qed

lemma decode_percent_encode:
  assumes "cp \<le> 1114111" "\<not> (55296 \<le> cp \<and> cp \<le> 57343)"
  shows "decodeURIComponent (percent_encode cp @ rest)
    = map_option (\<lambda>r. utf16_encode cp @ r) (decodeURIComponent rest)"
proof -
  consider "cp < 128" | "128 \<le> cp" "cp < 2048" | "2048 \<le> cp" "cp < 65536" | "65536 \<le> cp"
    by linarith
  then show ?thesis
  proof cases
    case 1
    then show ?thesis by (rule decode_one_byte)
  next
    case 2
    then show ?thesis by (rule decode_two_bytes)
  next
    case 3
    with assms show ?thesis by (intro decode_three_bytes) auto
  next
    case 4
    with assms show ?thesis by (intro decode_four_bytes) auto
  qed
qed

lemma unreserved_not_percent: "uri_unreserved c \<Longrightarrow> c \<noteq> 37"
  by (auto simp: uri_unreserved_def ascii_alpha_def ascii_digit_def)

lemma utf16_surrogate_pair:
  assumes "high_surrogate c" "low_surrogate d"
  shows "utf16_encode (surrogate_pair c d) = [c, d]"
    and "65536 \<le> surrogate_pair c d" and "surrogate_pair c d \<le> 1114111"
proof -
  define h where "h = c - 55296"
  define l where "l = d - 56320"
  from assms have h: "c = 55296 + h" "h < 1024" and l: "d = 56320 + l" "l < 1024"
    by (auto simp: high_surrogate_def low_surrogate_def h_def l_def)
  have sp: "surrogate_pair c d = 65536 + (h * 1024 + l)"
    by (simp add: surrogate_pair_def h l)
  have "(h * 1024 + l) div 1024 = h" "(h * 1024 + l) mod 1024 = l"
    using l(2) by simp_all
  then have "utf16_encode (65536 + (h * 1024 + l)) = [55296 + h, 56320 + l]"
    by (simp add: utf16_encode_def)
  then show "utf16_encode (surrogate_pair c d) = [c, d]"
    by (simp only: sp h(1) [symmetric] l(1) [symmetric])
  show "65536 \<le> surrogate_pair c d" by (simp add: sp)
  have "h * 1024 + l \<le> 1023 * 1024 + 1023"
    using h(2) l(2) by (intro add_mono mult_right_mono) simp_all
  then show "surrogate_pair c d \<le> 1114111" by (simp add: sp)
qed

lemma decode_encode:
  "encodeURIComponent s = Some e \<Longrightarrow> \<forall>c\<in>set s. c < 65536 \<Longrightarrow>
   decodeURIComponent (e @ rest) = map_option (\<lambda>r. s @ r) (decodeURIComponent rest)"
proof (induction s arbitrary: e rule: length_induct)
  case (1 s)
  show ?case
  proof (cases s)
    case Nil
    with "1.prems" show ?thesis by (simp add: option.map_ident)
  next
    case (Cons c cs)
    consider (plain) "uri_unreserved c"
      | (low) "\<not> uri_unreserved c" "low_surrogate c"
      | (high) "\<not> uri_unreserved c" "\<not> low_surrogate c" "high_surrogate c"
      | (other) "\<not> uri_unreserved c" "\<not> low_surrogate c" "\<not> high_surrogate c"
      by blast
    then show ?thesis
    proof cases
      case plain
      with "1.prems" Cons obtain e' where e': "encodeURIComponent cs = Some e'" "e = c # e'"
        by auto
      have "decodeURIComponent (e' @ rest) = map_option (\<lambda>r. cs @ r) (decodeURIComponent rest)"
        using "1.IH" e'(1) "1.prems"(2) Cons by simp
      with plain e'(2) Cons show ?thesis
        by (simp add: unreserved_not_percent option.map_comp comp_def)
    next
      case low
      with "1.prems" Cons show ?thesis by simp
    next
      case high
      with "1.prems" Cons obtain d ds e' where
        d: "cs = d # ds" "low_surrogate d" "encodeURIComponent ds = Some e'"
           "e = percent_encode (surrogate_pair c d) @ e'"
        by (auto split: list.splits if_splits)
      have ih: "decodeURIComponent (e' @ rest) = map_option (\<lambda>r. ds @ r) (decodeURIComponent rest)"
        using "1.IH" d(1,3) "1.prems"(2) Cons by simp
      have ns: "\<not> (55296 \<le> surrogate_pair c d \<and> surrogate_pair c d \<le> 57343)"
        using utf16_surrogate_pair(2) [OF high(3) d(2)] by simp
      show ?thesis
        unfolding d(4) Cons d(1) append_assoc
        by (simp only: decode_percent_encode [OF utf16_surrogate_pair(3) [OF high(3) d(2)] ns]
            utf16_surrogate_pair(1) [OF high(3) d(2)] ih)
           (simp add: option.map_comp comp_def)
    next
      case other
      with "1.prems" Cons obtain e' where e': "encodeURIComponent cs = Some e'" "e = percent_encode c @ e'"
        by auto
      have ih: "decodeURIComponent (e' @ rest) = map_option (\<lambda>r. cs @ r) (decodeURIComponent rest)"
        using "1.IH" e'(1) "1.prems"(2) Cons by simp
      have c: "c \<le> 1114111" "\<not> (55296 \<le> c \<and> c \<le> 57343)" "c < 65536"
        using "1.prems"(2) Cons other by (auto simp: low_surrogate_def high_surrogate_def)
      show ?thesis
        unfolding e'(2) Cons append_assoc
        by (simp only: decode_percent_encode [OF c(1,2)] ih)
           (simp add: utf16_encode_def c(3) option.map_comp comp_def)
    qed
  qed
qed

lemma hex_digit_unreserved: "n < 16 \<Longrightarrow> uri_unreserved (hex_digit n)"
  by (auto simp: hex_digit_def uri_unreserved_def ascii_alpha_def ascii_digit_def)

lemma percent_byte_chars: "b < 256 \<Longrightarrow> \<forall>x \<in> set (percent_byte b). uri_unreserved x \<or> x = 37"
proof -
  assume "b < 256"
  then have "b div 16 < 16" "b mod 16 < 16" by auto
  then show ?thesis by (simp add: percent_byte_def hex_digit_unreserved)
qed

lemma utf8_encode_bytes: "cp \<le> 1114111 \<Longrightarrow> \<forall>b \<in> set (utf8_encode cp). b < 256"
  by (auto simp: utf8_encode_def)

lemma percent_encode_chars:
  "cp \<le> 1114111 \<Longrightarrow> \<forall>x \<in> set (percent_encode cp). uri_unreserved x \<or> x = 37"
  using utf8_encode_bytes [of cp] percent_byte_chars
  by (auto simp: percent_encode_def)

lemma percent_encode_nonempty: "percent_encode cp \<noteq> []"
  by (simp add: percent_encode_def utf8_encode_def percent_byte_def)

lemma encode_chars:
  "encodeURIComponent s = Some e \<Longrightarrow> \<forall>c\<in>set s. c < 65536 \<Longrightarrow>
   \<forall>x \<in> set e. uri_unreserved x \<or> x = 37"
proof (induction s arbitrary: e rule: encodeURIComponent.induct)
  case 1
  then show ?case by simp
next
  case (2 c cs)
  consider (plain) "uri_unreserved c"
    | (low) "\<not> uri_unreserved c" "low_surrogate c"
    | (high) "\<not> uri_unreserved c" "\<not> low_surrogate c" "high_surrogate c"
    | (other) "\<not> uri_unreserved c" "\<not> low_surrogate c" "\<not> high_surrogate c"
    by blast
  then show ?case
  proof cases
    case plain
    with "2.prems" obtain e' where e': "encodeURIComponent cs = Some e'" "e = c # e'" by auto
    from "2.IH"(1) [OF plain e'(1)] "2.prems"(2) plain e'(2) show ?thesis by simp
  next
    case low
    with "2.prems" show ?thesis by simp
  next
    case high
    with "2.prems" obtain d ds e' where
      d: "cs = d # ds" "low_surrogate d" "encodeURIComponent ds = Some e'"
         "e = percent_encode (surrogate_pair c d) @ e'"
      by (auto split: list.splits if_splits)
    from "2.IH"(2) [OF high d(1,2,3)] "2.prems"(2) d(1)
    have "\<forall>x \<in> set e'. uri_unreserved x \<or> x = 37" by simp
    with percent_encode_chars [OF utf16_surrogate_pair(3) [OF high(3) d(2)]] d(4)
    show ?thesis by auto
  next
    case other
    with "2.prems" obtain e' where e': "encodeURIComponent cs = Some e'" "e = percent_encode c @ e'"
      by auto
    from "2.IH"(3) [OF other e'(1)] "2.prems"(2)
    have "\<forall>x \<in> set e'. uri_unreserved x \<or> x = 37" by simp
    moreover have "c \<le> 1114111" using "2.prems"(2) by auto
    ultimately show ?thesis using percent_encode_chars [of c] e'(2) by auto
  qed
qed

lemma encode_empty_iff: "encodeURIComponent s = Some [] \<longleftrightarrow> s = []"
  by (cases s) (auto simp: percent_encode_nonempty split: list.splits if_splits)

lemma those_map_Some:
  "those (map f xs) = Some ys \<longleftrightarrow> list_all2 (\<lambda>x y. f x = Some y) xs ys"
proof (induction xs arbitrary: ys)
  case Nil
  then show ?case by auto
next
  case (Cons x xs)
  then show ?case
    by (cases ys) (auto split: option.splits)
qed

lemma join_with_Cons: "join_with c ((x # p) # ps) = x # join_with c (p # ps)"
  by (cases ps) simp_all

lemma join_with_app: "ps \<noteq> [] \<Longrightarrow> join_with c (p # ps) = p @ c # join_with c ps"
  by (cases ps) simp_all

lemma join_split: "join_with c (split_on c s) = s"
proof (induction s)
  case Nil
  then show ?case by simp
next
  case (Cons x xs)
  then show ?case
    by (cases "split_on c xs") (auto simp: split_on_nonempty join_with_app join_with_Cons)
qed

lemma split_join:
  "es \<noteq> [] \<Longrightarrow> \<forall>e\<in>set es. c \<notin> set e \<Longrightarrow> split_on c (join_with c es) = es"
proof (induction es rule: join_with.induct)
  case (1 c)
  then show ?case by simp
next
  case (2 c p)
  then show ?case by (simp add: split_on_no_sep)
next
  case (3 c p q ps)
  then show ?case by (simp add: split_on_append_sep split_on_no_sep)
qed

lemma path_segments_plain:
  "\<forall>e\<in>set es. \<not> single_dot e \<and> \<not> double_dot e \<Longrightarrow> path_segments done es = done @ es"
  by (induction es arbitrary: "done") auto

lemma concat_slashes: "es \<noteq> [] \<Longrightarrow> concat (map (\<lambda>seg. 47 # seg) es) = 47 # join_with 47 es"
  by (induction es rule: join_with.induct) auto

lemma decode_joined:
  "list_all2 (\<lambda>seg e. encodeURIComponent seg = Some e) segs es \<Longrightarrow> segs \<noteq> [] \<Longrightarrow>
   \<forall>seg\<in>set segs. \<forall>c\<in>set seg. c < 65536 \<Longrightarrow>
   decodeURIComponent (join_with 47 es) = Some (join_with 47 segs)"
proof (induction segs es rule: list_all2_induct)
  case Nil
  then show ?case by simp
next
  case (Cons seg segs e es)
  show ?case
  proof (cases segs)
    case Nil
    with Cons.hyps have "es = []" by simp
    with Nil Cons.hyps(1) Cons.prems(2) decode_encode [of seg e "[]"] show ?thesis
      by simp
  next
    case (Cons s' ss)
    with Cons.hyps obtain e' es' where es: "es = e' # es'" by (cases es) auto
    have ih: "decodeURIComponent (join_with 47 es) = Some (join_with 47 segs)"
      using Cons.IH Cons.prems(2) Cons by simp
    have "decodeURIComponent (e @ 47 # join_with 47 es)
        = map_option (\<lambda>r. seg @ r) (decodeURIComponent (47 # join_with 47 es))"
      using decode_encode [of seg e "47 # join_with 47 es"] Cons.hyps(1) Cons.prems(2) by simp
    also have "\<dots> = Some (seg @ 47 # join_with 47 segs)"
      by (simp add: ih)
    finally show ?thesis
      using Cons es by (simp add: join_with_app)
  qed
qed

lemma ascii_lower_dot: "ascii_lower c = 46 \<longleftrightarrow> c = 46"
  by (auto simp: ascii_lower_def)

lemma ascii_lower_percent: "ascii_lower c = 37 \<longleftrightarrow> c = 37"
  by (auto simp: ascii_lower_def)

lemma ascii_lower_two: "ascii_lower c = 50 \<longleftrightarrow> c = 50"
  by (auto simp: ascii_lower_def)

lemma ascii_lower_e: "ascii_lower c = 101 \<longleftrightarrow> c = 101 \<or> c = 69"
  by (auto simp: ascii_lower_def)

lemmas ascii_lower_cases = ascii_lower_dot ascii_lower_percent ascii_lower_two ascii_lower_e

lemma decode_dot: "decodeURIComponent (46 # s) = map_option (\<lambda>r. 46 # r) (decodeURIComponent s)"
  by simp

lemma decode_2e:
  "decodeURIComponent (37 # 50 # 101 # s) = map_option (\<lambda>r. 46 # r) (decodeURIComponent s)"
  "decodeURIComponent (37 # 50 # 69 # s) = map_option (\<lambda>r. 46 # r) (decodeURIComponent s)"
  by (simp_all add: hex_value_def ascii_digit_def)

lemma single_dot_cases:
  "single_dot e \<longleftrightarrow> e = [46] \<or> e = [37, 50, 101] \<or> e = [37, 50, 69]"
  by (auto simp: single_dot_def js_def map_eq_Cons_conv ascii_lower_cases)

lemma double_dot_cases:
  "double_dot e \<longleftrightarrow>
     e = [46, 46] \<or> e = [46, 37, 50, 101] \<or> e = [46, 37, 50, 69]
     \<or> e = [37, 50, 101, 46] \<or> e = [37, 50, 69, 46]
     \<or> e = [37, 50, 101, 37, 50, 101] \<or> e = [37, 50, 101, 37, 50, 69]
     \<or> e = [37, 50, 69, 37, 50, 101] \<or> e = [37, 50, 69, 37, 50, 69]"
  by (auto simp: double_dot_def js_def map_eq_Cons_conv ascii_lower_cases)

lemma single_dot_decode: "single_dot e \<Longrightarrow> decodeURIComponent e = Some (js ''.'')"
  unfolding single_dot_cases
  by (elim disjE) (simp_all only: decode_dot decode_2e decodeURIComponent.simps(1) js_def, simp_all)

lemma double_dot_decode: "double_dot e \<Longrightarrow> decodeURIComponent e = Some (js ''..'')"
  unfolding double_dot_cases
  by (elim disjE) (simp_all only: decode_dot decode_2e decodeURIComponent.simps(1) js_def, simp_all)

lemma set_join_with_subset:
  "x \<in> set (join_with c ps) \<Longrightarrow> x = c \<or> (\<exists>p\<in>set ps. x \<in> set p)"
  by (induction c ps rule: join_with.induct) auto

lemma set_join_with_member: "p \<in> set ps \<Longrightarrow> x \<in> set p \<Longrightarrow> x \<in> set (join_with c ps)"
  by (induction c ps rule: join_with.induct) auto

lemma url_trim_id: "\<forall>c\<in>set s. 32 < c \<Longrightarrow> url_trim s = s"
proof -
  assume a: "\<forall>c\<in>set s. 32 < c"
  have d: "dropWhile (\<lambda>c. c \<le> 32) xs = xs" if "\<forall>c\<in>set xs. 32 < c" for xs :: jsstring
    using that by (cases xs) auto
  have "filter (\<lambda>c. c \<noteq> 9 \<and> c \<noteq> 10 \<and> c \<noteq> 13) s = s"
    using a by (auto simp: filter_id_conv)
  then show ?thesis
    using a by (simp add: url_trim_def d)
qed

lemma host_char_printable: "host_char c \<Longrightarrow> 32 < c"
  by (auto simp: host_char_def ascii_alpha_def ascii_digit_def)

lemma path_char_printable: "path_char c \<Longrightarrow> 32 < c"
  by (auto simp: path_char_def uri_unreserved_def ascii_alpha_def ascii_digit_def)

lemma URL_standard_https:
  assumes "plain_domain host" "list_all path_char path"
  shows "URL_standard (js ''https://'' @ host @ 47 # path)
    = Some (Pathname (concat (map (\<lambda>seg. 47 # seg) (path_segments [] (split_on 47 path)))))"
proof -
  from assms(1) have h: "\<forall>c\<in>set host. host_char c"
    by (simp add: plain_domain_def list_all_iff)
  from assms(2) have pa: "\<forall>c\<in>set path. path_char c"
    by (simp add: list_all_iff)
  have n: "\<not> host_char 47"
    by (simp add: host_char_def ascii_alpha_def ascii_digit_def)
  have "\<forall>c\<in>set (js ''https://'' @ host @ 47 # path). 32 < c"
    using h pa by (auto simp: js_def dest: host_char_printable path_char_printable)
  then have tr: "url_trim (js ''https://'' @ host @ 47 # path) = js ''https://'' @ host @ 47 # path"
    by (rule url_trim_id)
  have sc: "has_scheme (js ''https://'' @ host @ 47 # path)"
    by (simp add: has_scheme_def js_def scheme_char_def ascii_alpha_def ascii_digit_def)
  have tw: "takeWhile host_char (host @ 47 # path) = host"
    using h n by (simp add: takeWhile_tail)
  have dw: "dropWhile host_char (host @ 47 # path) = 47 # path"
    using h n by (simp add: dropWhile_append3)
  have t8: "take 8 (js ''https://'' @ host @ 47 # path) = js ''https://''"
    and d8: "drop 8 (js ''https://'' @ host @ 47 # path) = host @ 47 # path"
    by (simp_all add: js_def)
  have pc: "path_char 47" by (simp add: path_char_def)
  show ?thesis
    unfolding URL_standard_def tr Let_def
    using assms pc sc by (simp only: t8 d8 tw dw) simp
qed

lemma aliyun_domain:
  assumes "list_all host_char b" "\<not> list_ex punycode_label (split_on 46 b)"
  shows "plain_domain (b @ js ''.aliyuncs.com'')"
proof -
  have sp: "split_on 46 (b @ js ''.aliyuncs.com'') = split_on 46 b @ [js ''aliyuncs'', js ''com'']"
  proof -
    have "b @ js ''.aliyuncs.com'' = b @ 46 # js ''aliyuncs.com''" by (simp add: js_def)
    moreover have "split_on 46 (js ''aliyuncs.com'') = [js ''aliyuncs'', js ''com'']"
      by (simp add: js_def)
    ultimately show ?thesis by (simp only: split_on_append_sep)
  qed
  have chars: "list_all host_char (b @ js ''.aliyuncs.com'')"
    using assms(1) by (simp add: js_def host_char_def ascii_alpha_def ascii_digit_def)
  have com: "\<not> numeric_label (js ''com'')"
    by (simp add: numeric_label_def js_def ascii_digit_def ascii_lower_def)
  have puny: "\<not> list_ex punycode_label (split_on 46 b @ [js ''aliyuncs'', js ''com''])"
    using assms(2) by (simp add: punycode_label_def js_def ascii_lower_def)
  have ne: "js ''com'' \<noteq> []" "b @ js ''.aliyuncs.com'' \<noteq> []" by (simp_all add: js_def)
  show ?thesis
    unfolding plain_domain_def sp Let_def
    using chars com puny ne by simp
qed


lemmas eval_codec =
  uri_unreserved_def ascii_alpha_def ascii_digit_def low_surrogate_def high_surrogate_def
  percent_encode_def utf8_encode_def percent_byte_def hex_digit_def

lemma example_key_url:
  "getUrl quiet_remote example_uploader example_key
     = Inr (js ''https://my-bucket.oss-cn-beijing.aliyuncs.com/my%20notes/%E5%9B%BE/1.png'')"
  by (simp add: getUrl_def example_uploader_def example_settings_def example_key_def js_def
      eval_codec)

lemma quiet_put: "put_outcome quiet_remote c key f m = None"
  by (simp add: quiet_remote_def)

text \<open>
  C4, as the code has it. For every URL parser that follows the standard: in public-URL
  mode, when bucket and region consist of ASCII letters, digits, hyphens, underscores and
  dots and no dot-separated label of \<^verbatim>\<open><bucket>.<region>\<close> begins with \<^verbatim>\<open>xn--\<close> (in
  any letter case), and the key is a string of UTF-16 code units without a leading
  slash, none of whose segments is \<^verbatim>\<open>.\<close> or \<^verbatim>\<open>..\<close>, and \<open>getUrl\<close> returns a URL for it
  (it throws on an unpaired surrogate), then parsing that URL gives the key back.
\<close>

theorem public_url_roundtrip:
  assumes std: "follows_standard URL"
    and pub: "usePublicUrl (settings u)"
    and hostchars: "list_all host_char (bucket (settings u) @ js ''.'' @ region (settings u))"
    and labels: "\<not> list_ex punycode_label
                   (split_on 46 (bucket (settings u) @ js ''.'' @ region (settings u)))"
    and units: "\<forall>c\<in>set key. c < 65536"
    and lead: "key = [] \<or> hd key \<noteq> 47"
    and dots: "\<forall>seg\<in>set (split_on 47 key). seg \<noteq> js ''.'' \<and> seg \<noteq> js ''..''"
    and url: "getUrl r u key = Inr url"
  shows "parseKeyFromUrl URL url = key"
proof -
  define segs where "segs = split_on 47 key"
  from url pub obtain parts where
    parts: "those (map encodeURIComponent segs) = Some parts" and
    u: "url = js ''https://'' @ bucket (settings u) @ js ''.'' @ region (settings u)
          @ js ''.aliyuncs.com/'' @ join_with 47 parts"
    by (auto simp: getUrl_def segs_def split: option.splits)
  from parts have all2: "list_all2 (\<lambda>seg e. encodeURIComponent seg = Some e) segs parts"
    by (simp add: those_map_Some)
  have segs_ne: "segs \<noteq> []" by (simp add: segs_def split_on_nonempty)
  with all2 have parts_ne: "parts \<noteq> []" by auto
  have key: "join_with 47 segs = key" by (simp add: segs_def join_split)
  have seg_units: "\<forall>seg\<in>set segs. \<forall>c\<in>set seg. c < 65536"
  proof (intro ballI)
    fix seg c assume "seg \<in> set segs" "c \<in> set seg"
    then have "c \<in> set (join_with 47 segs)"
      by (rule set_join_with_member)
    with units key show "c < 65536" by simp
  qed
  have part_of: "\<exists>seg\<in>set segs. encodeURIComponent seg = Some e" if "e \<in> set parts" for e
  proof -
    from that obtain i where i: "i < length parts" "e = parts ! i"
      by (auto simp: in_set_conv_nth)
    with all2 have "encodeURIComponent (segs ! i) = Some e" "i < length segs"
      by (auto simp: list_all2_conv_all_nth)
    then show ?thesis using nth_mem by blast
  qed
  have chars: "\<forall>x\<in>set e. uri_unreserved x \<or> x = 37" if "e \<in> set parts" for e
    using part_of [OF that] seg_units encode_chars by blast
  have no_slash: "\<forall>e\<in>set parts. 47 \<notin> set e"
  proof
    fix e assume "e \<in> set parts"
    from chars [OF this] show "47 \<notin> set e"
      by (auto simp: uri_unreserved_def ascii_alpha_def ascii_digit_def)
  qed
  have no_dots: "\<forall>e\<in>set parts. \<not> single_dot e \<and> \<not> double_dot e"
  proof
    fix e assume e: "e \<in> set parts"
    from part_of [OF e] obtain seg where seg: "seg \<in> set segs" "encodeURIComponent seg = Some e"
      by blast
    from decode_encode [OF seg(2), of "[]"] seg(1) seg_units
    have d: "decodeURIComponent e = Some seg" by simp
    from dots seg(1) have "seg \<noteq> js ''.''" "seg \<noteq> js ''..''" by (auto simp: segs_def)
    with d single_dot_decode [of e] double_dot_decode [of e]
    show "\<not> single_dot e \<and> \<not> double_dot e" by auto
  qed
  have path_chars: "list_all path_char (join_with 47 parts)"
  proof -
    have "\<forall>x\<in>set (join_with 47 parts). path_char x"
      using chars by (auto simp: path_char_def dest!: set_join_with_subset)
    then show ?thesis by (simp add: list_all_iff)
  qed
  have u': "url = js ''https://''
      @ (bucket (settings u) @ js ''.'' @ region (settings u) @ js ''.aliyuncs.com'')
      @ 47 # join_with 47 parts"
    by (simp add: u js_def)
  have host: "plain_domain
      (bucket (settings u) @ js ''.'' @ region (settings u) @ js ''.aliyuncs.com'')"
    using aliyun_domain [OF hostchars labels] by simp
  have "URL_standard url = Some (Pathname (47 # join_with 47 parts))"
    unfolding u'
    by (simp only: URL_standard_https [OF host path_chars] split_join [OF parts_ne no_slash]
        path_segments_plain [OF no_dots] append_Nil concat_slashes [OF parts_ne])
  with std have pathname: "URL url = Some (47 # join_with 47 parts)"
    by (auto simp: follows_standard_def split: option.splits URL_result.splits
        dest!: spec [where x = url])
  have head: "join_with 47 parts = [] \<or> hd (join_with 47 parts) \<noteq> 47"
  proof (cases "key = []")
    case True
    then have "segs = [[]]" by (simp add: segs_def)
    with all2 have "parts = [[]]"
      by (auto simp: list_all2_Cons1)
    then show ?thesis by simp
  next
    case False
    with lead have hd: "hd key \<noteq> 47" by simp
    from segs_ne obtain s1 ss where segs: "segs = s1 # ss" by (cases segs) auto
    with all2 obtain p1 ps where ps: "parts = p1 # ps" "encodeURIComponent s1 = Some p1"
      by (auto simp: list_all2_Cons1)
    have "s1 \<noteq> []"
    proof
      assume "s1 = []"
      with segs key False hd show False
        by (cases ss) auto
    qed
    with ps(2) have "p1 \<noteq> []" using encode_empty_iff [of s1] by auto
    moreover from chars [of p1] ps(1) have "\<forall>x\<in>set p1. uri_unreserved x \<or> x = 37" by simp
    ultimately have "hd p1 \<noteq> 47"
      by (cases p1) (auto simp: uri_unreserved_def ascii_alpha_def ascii_digit_def)
    moreover have "hd (join_with 47 parts) = hd p1"
      using ps(1) \<open>p1 \<noteq> []\<close> by (cases ps) simp_all
    ultimately show ?thesis by simp
  qed
  then have strip: "dropWhile (\<lambda>c. c = 47) (join_with 47 parts) = join_with 47 parts"
    by (cases "join_with 47 parts") auto
  have dec: "decodeURIComponent (join_with 47 parts) = Some key"
    using decode_joined [OF all2 segs_ne seg_units] key by simp
  have "url \<noteq> []" by (simp add: u js_def)
  then show ?thesis
    by (simp add: parseKeyFromUrl_def pathname strip dec)
qed

theorem public_url_roundtrip_witness:
  "parseKeyFromUrl URL_pathname
     (js ''https://my-bucket.oss-cn-beijing.aliyuncs.com/my%20notes/%E5%9B%BE/1.png'')
     = example_key"
proof -
  have pub: "usePublicUrl (settings example_uploader)"
    by (simp add: example_uploader_def example_settings_def)
  have hostchars: "list_all host_char
      (bucket (settings example_uploader) @ js ''.'' @ region (settings example_uploader))"
    by (simp add: example_uploader_def example_settings_def js_def host_char_def
        ascii_alpha_def ascii_digit_def)
  have labels: "\<not> list_ex punycode_label (split_on 46
      (bucket (settings example_uploader) @ js ''.'' @ region (settings example_uploader)))"
    by (simp add: example_uploader_def example_settings_def js_def punycode_label_def
        ascii_lower_def)
  have units: "\<forall>c\<in>set example_key. c < 65536"
    by (simp add: example_key_def js_def)
  have lead: "example_key = [] \<or> hd example_key \<noteq> 47"
    by (simp add: example_key_def js_def)
  have dots: "\<forall>seg\<in>set (split_on 47 example_key). seg \<noteq> js ''.'' \<and> seg \<noteq> js ''..''"
    by (simp add: example_key_def js_def)
  from public_url_roundtrip
    [OF URL_pathname_follows pub hostchars labels units lead dots example_key_url]
  show ?thesis .
qed

text \<open>
  C4, as stated, fails, for a key and for a configuration. With the prefix setting
  \<^verbatim>\<open>..\<close> the uploader produces the key \<^verbatim>\<open>../1700000000000.png\<close> (no leading slash,
  normalized prefix, generated name); the URL parser resolves the dot segment and the
  key parsed back is \<^verbatim>\<open>1700000000000.png\<close>. With the bucket setting \<^verbatim>\<open>a/b\<close> the host of
  the resolved URL is \<^verbatim>\<open>a\<close>, the rest of the bucket and the region are read as path,
  and the key \<^verbatim>\<open>1.png\<close> comes back as \<^verbatim>\<open>b.oss-cn-beijing.aliyuncs.com/1.png\<close>.
\<close>

theorem dot_segment_prefix_breaks_roundtrip:
  "upload quiet_remote dotted_uploader 1700000000000 example_file
     = Inr (js ''https://my-bucket.oss-cn-beijing.aliyuncs.com/../1700000000000.png'',
            js ''../1700000000000.png'')
   \<and> parseKeyFromUrl URL_pathname
       (js ''https://my-bucket.oss-cn-beijing.aliyuncs.com/../1700000000000.png'')
     = js ''1700000000000.png''
   \<and> getUrl quiet_remote slashed_uploader (js ''1.png'')
     = Inr (js ''https://a/b.oss-cn-beijing.aliyuncs.com/1.png'')
   \<and> parseKeyFromUrl URL_pathname (js ''https://a/b.oss-cn-beijing.aliyuncs.com/1.png'')
     = js ''b.oss-cn-beijing.aliyuncs.com/1.png''"
proof -
  have key: "getPrefix (settings dotted_uploader) @ generateFileName 1700000000000 example_file
      = js ''../1700000000000.png''"
    by (simp add: dotted_uploader_def example_settings_def getPrefix_def generateFileName_def
        example_file_def digits.simps js_def)
  have url: "getUrl quiet_remote dotted_uploader (js ''../1700000000000.png'')
      = Inr (js ''https://my-bucket.oss-cn-beijing.aliyuncs.com/../1700000000000.png'')"
    by (simp add: getUrl_def dotted_uploader_def example_settings_def js_def eval_codec)
  have up: "upload quiet_remote dotted_uploader 1700000000000 example_file
     = Inr (js ''https://my-bucket.oss-cn-beijing.aliyuncs.com/../1700000000000.png'',
            js ''../1700000000000.png'')"
    by (simp add: upload_def Let_def key url quiet_put)
  have parsed: "parseKeyFromUrl URL_pathname
       (js ''https://my-bucket.oss-cn-beijing.aliyuncs.com/../1700000000000.png'')
     = js ''1700000000000.png''"
    by (simp add: parseKeyFromUrl_def js_def eval_url)
  have url2: "getUrl quiet_remote slashed_uploader (js ''1.png'')
     = Inr (js ''https://a/b.oss-cn-beijing.aliyuncs.com/1.png'')"
    by (simp add: getUrl_def slashed_uploader_def example_settings_def js_def eval_codec)
  have parsed2: "parseKeyFromUrl URL_pathname (js ''https://a/b.oss-cn-beijing.aliyuncs.com/1.png'')
     = js ''b.oss-cn-beijing.aliyuncs.com/1.png''"
    by (simp add: parseKeyFromUrl_def js_def eval_url)
  from up parsed url2 parsed2 show ?thesis by simp
qed

end
